theory Spec2Isabelle
  imports Complex_Main "HOL-Library.Char_ord" "HOL-Library.List_Lexorder"
begin

section \<open>Values produced by JSON.parse\<close>

text \<open>
  The service reply and the stored collection both pass through \<^verbatim>\<open>JSON.parse\<close> and
  are then used through an unchecked cast, so the code works on arbitrary parsed values.
  Numbers are the exact values of the parsed doubles (a literal beyond the range of a
  double, which parses to an infinity, is not represented); the keys of a parsed object
  are distinct.
\<close>

datatype json =
    JNull
  | JBool bool
  | JNum rat
  | JStr string
  | JArr "json list"
  | JObj "(string \<times> json) list"

text \<open>Property read \<^verbatim>\<open>v.key\<close> on a value other than null; \<open>None\<close> is undefined.
  The keys read by the code (question, options, correctOptionIndex, explanation, topic)
  exist on no string, number, boolean or array.\<close>

fun get_prop :: "json \<Rightarrow> string \<Rightarrow> json option" where
  "get_prop (JObj fs) key = map_of fs key"
| "get_prop _ key = None"

text \<open>JavaScript truthiness, as used by \<^verbatim>\<open>!x\<close> and \<^verbatim>\<open>x || y\<close>.\<close>

fun truthy :: "json option \<Rightarrow> bool" where
  "truthy None = False"
| "truthy (Some JNull) = False"
| "truthy (Some (JBool b)) = b"
| "truthy (Some (JNum r)) = (r \<noteq> 0)"
| "truthy (Some (JStr s)) = (s \<noteq> [])"
| "truthy (Some (JArr xs)) = True"
| "truthy (Some (JObj fs)) = True"

section \<open>Cards (types.ts)\<close>

text \<open>
  The interfaces declare \<^verbatim>\<open>question\<close> and \<^verbatim>\<open>text\<close> as strings; at run time they hold
  whatever the unchecked cast let through, so both are \<^typ>\<open>json\<close> here. Optional fields
  are \<open>None\<close> when undefined.
\<close>

record MCQOption =
  option_id :: string
  option_text :: json

record FlashcardMCQ =
  card_id :: string
  question :: json
  options :: "MCQOption list"
  correctOptionId :: string
  topic :: "string option"
  explanation :: "string option"
  sourcePdfName :: "string option"

section \<open>The card store (hooks/useFlashcards.ts)\<close>

text \<open>The updater functions handed to \<^verbatim>\<open>setFlashcards\<close>.\<close>

definition addFlashcard :: "FlashcardMCQ \<Rightarrow> FlashcardMCQ list \<Rightarrow> FlashcardMCQ list" where
  "addFlashcard c prev = prev @ [c]"

definition updateFlashcard :: "FlashcardMCQ \<Rightarrow> FlashcardMCQ list \<Rightarrow> FlashcardMCQ list" where
  "updateFlashcard updatedCard prev =
     map (\<lambda>c. if card_id c = card_id updatedCard then updatedCard else c) prev"

definition deleteFlashcard :: "string \<Rightarrow> FlashcardMCQ list \<Rightarrow> FlashcardMCQ list" where
  "deleteFlashcard i prev = filter (\<lambda>c. card_id c \<noteq> i) prev"

text \<open>Index of the first card with a given id (\<open>length cs\<close> when there is none).\<close>

fun first_index :: "string \<Rightarrow> FlashcardMCQ list \<Rightarrow> nat" where
  "first_index i [] = 0"
| "first_index i (c # cs) = (if card_id c = i then 0 else Suc (first_index i cs))"

text \<open>Sample cards.\<close>

definition sample_card :: "string \<Rightarrow> string \<Rightarrow> FlashcardMCQ" where
  "sample_card i q =
     \<lparr>card_id = i, question = JStr q,
      options = [\<lparr>option_id = ''o1'', option_text = JStr ''A''\<rparr>,
                 \<lparr>option_id = ''o2'', option_text = JStr ''B''\<rparr>],
      correctOptionId = ''o1'', topic = None, explanation = None, sourcePdfName = None\<rparr>"

text \<open>
  The hook keeps the collection in React state and mirrors it under one key of
  \<^verbatim>\<open>localStorage\<close>. The store below holds the state, the stored text and the lines
  written with \<^verbatim>\<open>console.error\<close>.
\<close>

record store =
  flashcards :: "FlashcardMCQ list"
  localStorage :: "string option"
  console :: "string list"

datatype storage_error = StorageFailure

text \<open>\<^verbatim>\<open>localStorage.setItem\<close> either stores the text or raises (quota exceeded);
  \<open>accepts\<close> says which texts the storage takes.\<close>

definition setItem :: "(string \<Rightarrow> bool) \<Rightarrow> string \<Rightarrow> storage_error + string option" where
  "setItem accepts v = (if accepts v then Inr (Some v) else Inl StorageFailure)"

text \<open>The effect that runs whenever the collection changed: serialise all of it and
  write it, catching and logging a failure. \<^verbatim>\<open>JSON.stringify\<close> is the parameter
  \<open>stringify\<close>.\<close>

definition persist ::
  "(string \<Rightarrow> bool) \<Rightarrow> (FlashcardMCQ list \<Rightarrow> string) \<Rightarrow> store \<Rightarrow> store" where
  "persist accepts stringify st =
     (case setItem accepts (stringify (flashcards st)) of
        Inl e \<Rightarrow> st\<lparr>console := console st @ [''Error saving flashcards to localStorage:'']\<rparr>
      | Inr v \<Rightarrow> st\<lparr>localStorage := v\<rparr>)"

text \<open>\<^verbatim>\<open>setFlashcards(updater)\<close>: the state is replaced, then the effect runs.\<close>

definition setFlashcards ::
  "(string \<Rightarrow> bool) \<Rightarrow> (FlashcardMCQ list \<Rightarrow> string) \<Rightarrow>
   (FlashcardMCQ list \<Rightarrow> FlashcardMCQ list) \<Rightarrow> store \<Rightarrow> store" where
  "setFlashcards accepts stringify updater st =
     persist accepts stringify (st\<lparr>flashcards := updater (flashcards st)\<rparr>)"

text \<open>
  The initial state of the hook. \<^verbatim>\<open>localStorage.getItem\<close> raises, returns null
  (\<open>None\<close>) or returns the stored text; \<^verbatim>\<open>JSON.parse\<close> is the parameter \<open>parse\<close>,
  which returns the parsed value or the diagnostic of the SyntaxError it raises. The
  result is the value the state starts with, cast unchecked to a card array, and the
  lines logged.
\<close>

definition initialFlashcards ::
  "(string \<Rightarrow> string + json) \<Rightarrow> storage_error + string option \<Rightarrow> json \<times> string list" where
  "initialFlashcards parse got =
     (case got of
        Inl e \<Rightarrow> (JArr [], [''Error loading flashcards from localStorage:''])
      | Inr None \<Rightarrow> (JArr [], [])
      | Inr (Some storedFlashcards) \<Rightarrow>
          if storedFlashcards = [] then (JArr [], [])
          else (case parse storedFlashcards of
                  Inl d \<Rightarrow> (JArr [], [''Error loading flashcards from localStorage:''])
                | Inr v \<Rightarrow> (v, [])))"

text \<open>A stand-in for \<^verbatim>\<open>JSON.parse\<close> on the three kinds of text the examples below use:
  the empty array, the literal null, and texts that are not JSON.\<close>

definition sample_parse :: "string \<Rightarrow> string + json" where
  "sample_parse s =
     (if s = ''[]'' then Inr (JArr [])
      else if s = ''null'' then Inr JNull
      else Inl ''SyntaxError'')"

section \<open>The source index (App.tsx)\<close>

text \<open>A \<^verbatim>\<open>Set\<close> keeps its elements in insertion order; \<^verbatim>\<open>sort()\<close> without a
  comparator orders strings by their code units.\<close>

definition add_source :: "string list \<Rightarrow> FlashcardMCQ \<Rightarrow> string list" where
  "add_source sources c =
     (case sourcePdfName c of
        None \<Rightarrow> sources
      | Some n \<Rightarrow> if n \<noteq> [] \<and> n \<notin> set sources then sources @ [n] else sources)"

definition uniquePdfSources :: "FlashcardMCQ list \<Rightarrow> string list" where
  "uniquePdfSources cs = sort (foldl add_source [] cs)"

definition sourced_card :: "string \<Rightarrow> string option \<Rightarrow> FlashcardMCQ" where
  "sourced_card i src = (sample_card i ''Q'')\<lparr>sourcePdfName := src\<rparr>"

section \<open>Strings (the parts of the JavaScript library the service uses)\<close>

text \<open>
  Strings are lists of 8-bit characters. \<open>is_space\<close> is the white space of
  \<^verbatim>\<open>String.prototype.trim\<close> and of the class \<^verbatim>\<open>\s\<close> in that range (tab, line feed,
  vertical tab, form feed, carriage return, space, no-break space); \<open>is_word\<close> is the
  class \<^verbatim>\<open>\w\<close>.
\<close>

definition is_space :: "char \<Rightarrow> bool" where
  "is_space c = (of_char c \<in> {9, 10, 11, 12, 13, 32, 160 :: nat})"

definition is_word :: "char \<Rightarrow> bool" where
  "is_word c =
     (let n = of_char c :: nat
      in (48 \<le> n \<and> n \<le> 57) \<or> (65 \<le> n \<and> n \<le> 90) \<or> n = 95 \<or> (97 \<le> n \<and> n \<le> 122))"

definition trim :: "string \<Rightarrow> string" where
  "trim s = rev (dropWhile is_space (rev (dropWhile is_space s)))"

text \<open>\<^verbatim>\<open>s.split(c)\<close> for a one-character separator.\<close>

fun split :: "char \<Rightarrow> string \<Rightarrow> string list" where
  "split c [] = [[]]"
| "split c (x # xs) =
     (if x = c then [] # split c xs
      else (case split c xs of [] \<Rightarrow> [[x]] | p # ps \<Rightarrow> (x # p) # ps))"

subsection \<open>The fence pattern\<close>

text \<open>
  The pattern is \<^verbatim>\<open>/^```(\w*)?\s*\n?(.*?)\n?\s*```$/s\<close>. A backtracking matcher tries
  the alternatives of each piece in a fixed order and returns the first way through the
  whole pattern. Each piece below lists what it leaves of the text, in the order the
  matcher tries: a greedy star the longest run first, a lazy star the shortest first, an
  optional character the character first. The optional group around \<^verbatim>\<open>\w*\<close> leaves the
  same rests as the star itself (its empty match stands for skipping the group).
\<close>

definition literal :: "string \<Rightarrow> string \<Rightarrow> string list" where
  "literal l s = (if take (length l) s = l then [drop (length l) s] else [])"

definition greedy_star :: "(char \<Rightarrow> bool) \<Rightarrow> string \<Rightarrow> string list" where
  "greedy_star P s = map (\<lambda>k. drop k s) (rev [0 ..< Suc (length (takeWhile P s))])"

definition optional_char :: "char \<Rightarrow> string \<Rightarrow> string list" where
  "optional_char c s = (case s of [] \<Rightarrow> [s] | x # r \<Rightarrow> if x = c then [r, s] else [s])"

definition lazy_any :: "string \<Rightarrow> (string \<times> string) list" where
  "lazy_any s = map (\<lambda>k. (take k s, drop k s)) [0 ..< Suc (length s)]"

text \<open>The rest of the pattern after the second group: \<^verbatim>\<open>\n?\s*```$\<close>. The result lists
  one entry for each way to reach the end of the text.\<close>

definition fence_close :: "string \<Rightarrow> unit list" where
  "fence_close s =
     concat (map (\<lambda>r5. concat (map (\<lambda>r6. concat (map (\<lambda>r7. if r7 = [] then [()] else [])
                                                        (literal ''```'' r6)))
                                   (greedy_star is_space r5)))
                 (optional_char (CHR 0x0A) s))"

text \<open>The second group and what follows it, \<^verbatim>\<open>(.*?)\n?\s*```$\<close>: the values of the group on
  every way to the end of the text.\<close>

definition second_group :: "string \<Rightarrow> string list" where
  "second_group s = concat (map (\<lambda>(m2, r4). map (\<lambda>u. m2) (fence_close r4)) (lazy_any s))"

text \<open>The pattern from \<^verbatim>\<open>\s*\n?\<close> on.\<close>

definition fence_body :: "string \<Rightarrow> string list" where
  "fence_body s =
     concat (map (\<lambda>r2. concat (map second_group (optional_char (CHR 0x0A) r2)))
                 (greedy_star is_space s))"

text \<open>The values of the second group on every way through the whole pattern, in the
  order the matcher finds them; \<^verbatim>\<open>match[2]\<close> is the first, and there is no match when
  the list is empty.\<close>

definition fenceRegex :: "string \<Rightarrow> string list" where
  "fenceRegex s =
     concat (map (\<lambda>r0. concat (map fence_body (greedy_star is_word r0))) (literal ''```'' s))"

text \<open>Lines 132-137 and 255-260: trim, and when the pattern matches with a non-empty
  second group, take that group, trimmed.\<close>

definition strip_fence :: "string \<Rightarrow> string" where
  "strip_fence text =
     (let jsonStr = trim text
      in (case fenceRegex jsonStr of
            [] \<Rightarrow> jsonStr
          | m2 # rest \<Rightarrow> if m2 \<noteq> [] then trim m2 else jsonStr))"

text \<open>A reply wrapped in a Markdown fence with the info string \<open>lang\<close>.\<close>

definition fenced :: "string \<Rightarrow> string \<Rightarrow> string" where
  "fenced lang t = ''```'' @ lang @ [CHR 0x0A] @ t @ [CHR 0x0A] @ ''```''"

section \<open>The extraction service (services/geminiService.ts)\<close>

text \<open>
  What a run fails with. \<open>AbortError\<close> is the \<^verbatim>\<open>DOMException\<close> named AbortError (the
  spec's Cancelled); the others are \<^verbatim>\<open>Error\<close>s told apart by their message:
  \<open>ParseFailure\<close> carries the parser's diagnostic (MalformedResponse), \<open>NotAnArray\<close> is
  "Expected an array" (UnexpectedShape), \<open>InvalidStructure\<close> is "Invalid response
  structure ... for single MCQ generation" (InvalidResult). \<open>TypeError\<close> is raised by the
  runtime on reading a property of null or undefined or on calling what is no function;
  the enclosing \<^verbatim>\<open>catch\<close> rethrows it with a prefix.
\<close>

datatype error =
    AbortError
  | NotConfigured
  | ReadFailure
  | ServiceFailure string
  | ParseFailure string
  | NotAnArray
  | InvalidStructure
  | TypeError

text \<open>The places where \<^verbatim>\<open>signal.aborted\<close> is read or the abort event is heard: lines
  186, 68, 75-78 (the listener, while the file is read), 201, 251, 280 (once for each
  element) and line 104 of App.tsx.\<close>

datatype checkpoint =
    AtStart
  | AtReadEntry
  | DuringRead
  | AfterRead
  | AfterCall
  | AtItem nat
  | AfterExtract

text \<open>What the \<^verbatim>\<open>FileReader\<close> reports when it is not aborted: the data URL, or an error.\<close>

datatype read_event = Loaded string | ReadError

text \<open>What is sent to the service: the encoded document with the fixed instruction, or
  the instruction built from a topic and a number of options.\<close>

datatype request = PdfRequest string | TopicRequest string nat

text \<open>
  Everything a run of the service depends on besides its arguments: whether the API key
  is set, what the signal shows at each checkpoint (constantly \<open>False\<close> when no signal is
  passed), what the reader reports, the service (it rejects with a message or answers
  with a text), \<^verbatim>\<open>JSON.parse\<close>, and the values \<^verbatim>\<open>crypto.randomUUID()\<close> returns, in the
  order of the calls.
\<close>

record run =
  api_configured :: bool
  aborted :: "checkpoint \<Rightarrow> bool"
  file_event :: read_event
  generateContent :: "request \<Rightarrow> string + string"
  json_parse :: "string \<Rightarrow> string + json"
  randomUUID :: "nat \<Rightarrow> string"

definition readFileAsBase64 :: "run \<Rightarrow> error + string" where
  "readFileAsBase64 r =
     (if aborted r AtReadEntry then Inl AbortError
      else if aborted r DuringRead then Inl AbortError
      else (case file_event r of
              ReadError \<Rightarrow> Inl ReadFailure
            | Loaded dataUrl \<Rightarrow>
                (case split (CHR '','') dataUrl of
                   p # base64String # ps \<Rightarrow>
                     if base64String = [] then Inl ReadFailure else Inr base64String
                 | _ \<Rightarrow> Inl ReadFailure)))"

fun is_string :: "json \<Rightarrow> bool" where
  "is_string (JStr s) = True"
| "is_string _ = False"

text \<open>Lines 283-290, for an element that is not null: the test that skips it.\<close>

definition item_invalid :: "json \<Rightarrow> bool" where
  "item_invalid item =
     (\<not> truthy (get_prop item ''question'')
      \<or> (case get_prop item ''options'' of
            Some (JArr opts) \<Rightarrow>
              (\<exists>opt \<in> set opts. \<not> is_string opt)
              \<or> (case get_prop item ''correctOptionIndex'' of
                    Some (JNum i) \<Rightarrow> i < 0 \<or> i \<ge> of_nat (length opts)
                  | _ \<Rightarrow> True)
          | _ \<Rightarrow> True))"

text \<open>Lines 295-298 and 160-163: one fresh id for each option text, \<open>k\<close> ids having
  been drawn before.\<close>

definition make_options :: "(nat \<Rightarrow> string) \<Rightarrow> nat \<Rightarrow> json list \<Rightarrow> MCQOption list" where
  "make_options uuid k opts =
     map (\<lambda>(j, optText). \<lparr>option_id = uuid (k + j), option_text = optText\<rparr>) (enumerate 0 opts)"

text \<open>\<^verbatim>\<open>xs[i].id\<close> for a number \<open>i\<close> with \<open>0 \<le> i < xs.length\<close>: an index that is no
  integer names no element, and reading \<^verbatim>\<open>id\<close> of undefined raises.\<close>

definition id_at :: "MCQOption list \<Rightarrow> rat \<Rightarrow> error + string" where
  "id_at xs i = (if i = of_int \<lfloor>i\<rfloor> then Inr (option_id (xs ! nat \<lfloor>i\<rfloor>)) else Inl TypeError)"

text \<open>\<^verbatim>\<open>x?.trim() || undefined\<close>: undefined and null give undefined, a string gives its
  trimmed text unless that is empty, anything else has no \<^verbatim>\<open>trim\<close> to call.\<close>

fun trimmed :: "json option \<Rightarrow> error + string option" where
  "trimmed None = Inr None"
| "trimmed (Some JNull) = Inr None"
| "trimmed (Some (JStr s)) = Inr (if trim s = [] then None else Some (trim s))"
| "trimmed (Some _) = Inl TypeError"

text \<open>Lines 295-307, for an element that passed the test (the other shapes do not arise
  after it); \<open>k\<close> ids were drawn before. The ids of the options are drawn first, then
  the id of the card.\<close>

definition promote :: "(nat \<Rightarrow> string) \<Rightarrow> nat \<Rightarrow> json \<Rightarrow> error + FlashcardMCQ" where
  "promote uuid k item =
     (case (get_prop item ''question'', get_prop item ''options'',
            get_prop item ''correctOptionIndex'') of
        (Some q, Some (JArr opts), Some (JNum i)) \<Rightarrow>
          (let mcqOptions = make_options uuid k opts
           in (case id_at mcqOptions i of
                 Inl e \<Rightarrow> Inl e
               | Inr correct \<Rightarrow>
                   (case trimmed (get_prop item ''explanation'') of
                      Inl e \<Rightarrow> Inl e
                    | Inr ex \<Rightarrow>
                        (case trimmed (get_prop item ''topic'') of
                           Inl e \<Rightarrow> Inl e
                         | Inr tp \<Rightarrow>
                             Inr \<lparr>card_id = uuid (k + length opts), question = q,
                                  options = mcqOptions, correctOptionId = correct,
                                  topic = tp, explanation = ex, sourcePdfName = None\<rparr>))))
      | _ \<Rightarrow> Inl TypeError)"

text \<open>How many ids the promotion of an element draws.\<close>

definition ids_drawn :: "json \<Rightarrow> nat" where
  "ids_drawn item =
     (case get_prop item ''options'' of Some (JArr opts) \<Rightarrow> Suc (length opts) | _ \<Rightarrow> 0)"

text \<open>The loop of lines 278-309: \<open>i\<close> is the index of the next element, \<open>k\<close> the number
  of ids drawn so far, \<open>acc\<close> the cards pushed so far.\<close>

fun process_items ::
  "run \<Rightarrow> nat \<Rightarrow> nat \<Rightarrow> json list \<Rightarrow> FlashcardMCQ list \<Rightarrow> error + FlashcardMCQ list" where
  "process_items r i k [] acc = Inr acc"
| "process_items r i k (item # rest) acc =
     (if aborted r (AtItem i) then Inl AbortError
      else if item = JNull then Inl TypeError
      else if item_invalid item then process_items r (Suc i) k rest acc
      else (case promote (randomUUID r) k item of
              Inl e \<Rightarrow> Inl e
            | Inr c \<Rightarrow> process_items r (Suc i) (k + ids_drawn item) rest (acc @ [c])))"

text \<open>What the same loop passes to \<^verbatim>\<open>console.warn\<close> (line 291) before it ends, in
  order: the elements it skips.\<close>

fun skipped_warnings :: "run \<Rightarrow> nat \<Rightarrow> nat \<Rightarrow> json list \<Rightarrow> json list" where
  "skipped_warnings r i k [] = []"
| "skipped_warnings r i k (item # rest) =
     (if aborted r (AtItem i) then []
      else if item = JNull then []
      else if item_invalid item then item # skipped_warnings r (Suc i) k rest
      else (case promote (randomUUID r) k item of
              Inl e \<Rightarrow> []
            | Inr c \<Rightarrow> skipped_warnings r (Suc i) (k + ids_drawn item) rest))"

definition extractMCQsFromPDF :: "run \<Rightarrow> error + FlashcardMCQ list" where
  "extractMCQsFromPDF r =
     (if \<not> api_configured r then Inl NotConfigured
      else if aborted r AtStart then Inl AbortError
      else (case readFileAsBase64 r of
              Inl e \<Rightarrow> Inl e
            | Inr base64PdfString \<Rightarrow>
                if aborted r AfterRead then Inl AbortError
                else (case generateContent r (PdfRequest base64PdfString) of
                        Inl m \<Rightarrow> Inl (ServiceFailure m)
                      | Inr text \<Rightarrow>
                          if aborted r AfterCall then Inl AbortError
                          else (case json_parse r (strip_fence text) of
                                  Inl d \<Rightarrow> Inl (ParseFailure d)
                                | Inr (JArr extractedDataArray) \<Rightarrow>
                                    process_items r 0 0 extractedDataArray []
                                | Inr _ \<Rightarrow> Inl NotAnArray))))"

subsection \<open>Generating one question\<close>

text \<open>What \<^verbatim>\<open>generateMCQWithGemini\<close> returns: a card without id and source. Its topic
  is the reply's when that is truthy (whatever its type) and the requested topic
  otherwise.\<close>

record GeneratedMCQ =
  gen_question :: json
  gen_options :: "MCQOption list"
  gen_correctOptionId :: string
  gen_topic :: json
  gen_explanation :: "string option"

text \<open>Lines 149-156, for a reply that is not null.\<close>

definition generated_invalid :: "nat \<Rightarrow> json \<Rightarrow> bool" where
  "generated_invalid numOptions generatedData =
     (\<not> truthy (get_prop generatedData ''question'')
      \<or> (case get_prop generatedData ''options'' of
            Some (JArr opts) \<Rightarrow>
              length opts \<noteq> numOptions
              \<or> (case get_prop generatedData ''correctOptionIndex'' of
                    Some (JNum i) \<Rightarrow> i < 0 \<or> i \<ge> of_nat numOptions
                  | _ \<Rightarrow> True)
          | _ \<Rightarrow> True))"

text \<open>Lines 160-171, for a reply that passed the test (the other shapes do not arise
  after it).\<close>

definition build_generated :: "(nat \<Rightarrow> string) \<Rightarrow> string \<Rightarrow> json \<Rightarrow> error + GeneratedMCQ" where
  "build_generated uuid topic_arg generatedData =
     (case (get_prop generatedData ''question'', get_prop generatedData ''options'',
            get_prop generatedData ''correctOptionIndex'') of
        (Some q, Some (JArr opts), Some (JNum i)) \<Rightarrow>
          (let newOptions = make_options uuid 0 opts
           in (case id_at newOptions i of
                 Inl e \<Rightarrow> Inl e
               | Inr correct \<Rightarrow>
                   (case trimmed (get_prop generatedData ''explanation'') of
                      Inl e \<Rightarrow> Inl e
                    | Inr ex \<Rightarrow>
                        Inr \<lparr>gen_question = q, gen_options = newOptions,
                             gen_correctOptionId = correct,
                             gen_topic =
                               (case get_prop generatedData ''topic'' of
                                  None \<Rightarrow> JStr topic_arg
                                | Some t \<Rightarrow> if truthy (Some t) then t else JStr topic_arg),
                             gen_explanation = ex\<rparr>)))
      | _ \<Rightarrow> Inl TypeError)"

definition generateMCQWithGemini :: "run \<Rightarrow> string \<Rightarrow> nat \<Rightarrow> error + GeneratedMCQ" where
  "generateMCQWithGemini r topic_arg numOptions =
     (if \<not> api_configured r then Inl NotConfigured
      else (case generateContent r (TopicRequest topic_arg numOptions) of
              Inl m \<Rightarrow> Inl (ServiceFailure m)
            | Inr text \<Rightarrow>
                (case json_parse r (strip_fence text) of
                   Inl d \<Rightarrow> Inl (ParseFailure d)
                 | Inr generatedData \<Rightarrow>
                     if generatedData = JNull then Inl TypeError
                     else if generated_invalid numOptions generatedData then Inl InvalidStructure
                     else build_generated (randomUUID r) topic_arg generatedData)))"

section \<open>Importing a document (App.tsx)\<close>

text \<open>
  \<^verbatim>\<open>handlePdfFileSelected\<close>, as far as the store is concerned: the cards of a successful
  extraction are tagged with the file name and appended in one update; a failed or
  cancelled extraction, an abort seen after the extraction returned, and an empty result
  leave the store alone.
\<close>

definition handlePdfFileSelected ::
  "(string \<Rightarrow> bool) \<Rightarrow> (FlashcardMCQ list \<Rightarrow> string) \<Rightarrow> run \<Rightarrow> string \<Rightarrow> store \<Rightarrow> store" where
  "handlePdfFileSelected accepts stringify r fileName st =
     (if \<not> api_configured r then st
      else (case extractMCQsFromPDF r of
              Inl e \<Rightarrow> st
            | Inr extractedCards \<Rightarrow>
                if aborted r AfterExtract then st
                else if extractedCards \<noteq> []
                then setFlashcards accepts stringify
                       (\<lambda>prev. prev @ map (\<lambda>c. c\<lparr>sourcePdfName := Some fileName\<rparr>) extractedCards) st
                else st))"

section \<open>The creation form (components/FlashcardForm.tsx)\<close>

text \<open>
  The state of the form when it is submitted. The fields are typed as strings, but they
  are also filled from the card being edited and from a generated question, so they hold
  parsed values; calling \<^verbatim>\<open>trim\<close> on one that is no string raises.
\<close>

record form =
  form_question :: json
  form_options :: "json list"
  form_correctOptionIndex :: "nat option"
  form_topic :: json
  form_explanation :: json
  initialCard :: "FlashcardMCQ option"

datatype submit_result = Saved FlashcardMCQ | Incomplete | Raised

text \<open>\<^verbatim>\<open>options.some(opt => opt.trim() === '')\<close>, left to right.\<close>

fun some_blank :: "json list \<Rightarrow> error + bool" where
  "some_blank [] = Inr False"
| "some_blank (JStr s # rest) = (if trim s = [] then Inr True else some_blank rest)"
| "some_blank (v # rest) = Inl TypeError"

text \<open>\<^verbatim>\<open>x.trim() || undefined\<close>, without the optional chaining.\<close>

fun trim_strict :: "json \<Rightarrow> error + string option" where
  "trim_strict (JStr s) = Inr (if trim s = [] then None else Some (trim s))"
| "trim_strict v = Inl TypeError"

text \<open>Lines 60-63: an option keeps the id of the edited card's option at the same
  position when there is one (and its id is not empty), and gets a fresh id otherwise.
  The result also counts the ids drawn.\<close>

fun form_option_ids ::
  "(nat \<Rightarrow> string) \<Rightarrow> nat \<Rightarrow> MCQOption list \<Rightarrow> json list \<Rightarrow> MCQOption list \<times> nat" where
  "form_option_ids uuid k olds [] = ([], k)"
| "form_option_ids uuid k [] (optText # rest) =
     (let (xs, k') = form_option_ids uuid (Suc k) [] rest
      in (\<lparr>option_id = uuid k, option_text = optText\<rparr> # xs, k'))"
| "form_option_ids uuid k (old # olds) (optText # rest) =
     (if option_id old \<noteq> []
      then (let (xs, k') = form_option_ids uuid k olds rest
            in (\<lparr>option_id = option_id old, option_text = optText\<rparr> # xs, k'))
      else (let (xs, k') = form_option_ids uuid (Suc k) olds rest
            in (\<lparr>option_id = uuid k, option_text = optText\<rparr> # xs, k')))"

definition handleSubmit :: "(nat \<Rightarrow> string) \<Rightarrow> form \<Rightarrow> submit_result" where
  "handleSubmit uuid f =
     (case form_question f of
        JStr q \<Rightarrow>
          if trim q = [] then Incomplete
          else (case some_blank (form_options f) of
                  Inl e \<Rightarrow> Raised
                | Inr True \<Rightarrow> Incomplete
                | Inr False \<Rightarrow>
                    (case form_correctOptionIndex f of
                       None \<Rightarrow> Incomplete
                     | Some correctOptionIndex \<Rightarrow>
                         (let (newMCQOptions, k) =
                                form_option_ids uuid 0
                                  (case initialCard f of None \<Rightarrow> [] | Some c \<Rightarrow> options c)
                                  (form_options f)
                          in if correctOptionIndex \<ge> length newMCQOptions then Raised
                             else (case (trim_strict (form_topic f),
                                         trim_strict (form_explanation f)) of
                                     (Inr tp, Inr ex) \<Rightarrow>
                                       Saved \<lparr>card_id =
                                                (case initialCard f of
                                                   None \<Rightarrow> uuid k
                                                 | Some c \<Rightarrow> if card_id c \<noteq> [] then card_id c else uuid k),
                                              question = JStr q, options = newMCQOptions,
                                              correctOptionId =
                                                option_id (newMCQOptions ! correctOptionIndex),
                                              topic = tp, explanation = ex,
                                              sourcePdfName =
                                                (case initialCard f of
                                                   None \<Rightarrow> None
                                                 | Some c \<Rightarrow> sourcePdfName c)\<rparr>
                                   | _ \<Rightarrow> Raised))))
      | _ \<Rightarrow> Raised)"

subsection \<open>The states of the form\<close>

text \<open>Lines 15-19 and 37-41: the state the form starts with and is reset to.\<close>

definition blank_form :: "FlashcardMCQ option \<Rightarrow> form" where
  "blank_form ic =
     \<lparr>form_question = JStr [], form_options = [JStr [], JStr [], JStr [], JStr []],
      form_correctOptionIndex = None, form_topic = JStr [], form_explanation = JStr [],
      initialCard = ic\<rparr>"

text \<open>\<^verbatim>\<open>options.findIndex(opt => opt.id === i)\<close>; \<open>None\<close> is -1, which the form stores
  as null.\<close>

fun findIndex :: "string \<Rightarrow> MCQOption list \<Rightarrow> nat option" where
  "findIndex i [] = None"
| "findIndex i (opt # rest) =
     (if option_id opt = i then Some 0 else map_option Suc (findIndex i rest))"

text \<open>\<^verbatim>\<open>x || ''\<close> for an optional string.\<close>

definition or_empty :: "string option \<Rightarrow> json" where
  "or_empty x = (case x of None \<Rightarrow> JStr [] | Some s \<Rightarrow> JStr s)"

text \<open>Lines 24-44, the effect that runs when the form is mounted and when the card to
  edit changes: the texts of the card's options, padded with empty texts and cut to
  four.\<close>

definition load_initialCard :: "form \<Rightarrow> form" where
  "load_initialCard f =
     (case initialCard f of
        None \<Rightarrow> blank_form None
      | Some c \<Rightarrow>
          \<lparr>form_question = question c,
           form_options = take 4 (map option_text (options c) @ [JStr [], JStr [], JStr [], JStr []]),
           form_correctOptionIndex = findIndex (correctOptionId c) (options c),
           form_topic = or_empty (topic c), form_explanation = or_empty (explanation c),
           initialCard = Some c\<rparr>)"

text \<open>Lines 46-50. The text inputs are rendered from the options and call it with
  their own position, so with an index below the number of options.\<close>

definition handleOptionChange :: "nat \<Rightarrow> string \<Rightarrow> form \<Rightarrow> form" where
  "handleOptionChange index v f = f\<lparr>form_options := (form_options f)[index := JStr v]\<rparr>"

text \<open>Lines 78-104: one question with four options is requested; a complete result
  fills the form, anything else leaves it as it is (a message is shown).\<close>

definition handleGenerateWithAI :: "run \<Rightarrow> string \<Rightarrow> form \<Rightarrow> form" where
  "handleGenerateWithAI r geminiTopic f =
     (if trim geminiTopic = [] then f
      else (case generateMCQWithGemini r (trim geminiTopic) 4 of
              Inl e \<Rightarrow> f
            | Inr generatedData \<Rightarrow>
                if truthy (Some (gen_question generatedData))
                   \<and> gen_correctOptionId generatedData \<noteq> []
                then f\<lparr>form_question := gen_question generatedData,
                       form_options := map option_text (gen_options generatedData),
                       form_correctOptionIndex :=
                         findIndex (gen_correctOptionId generatedData) (gen_options generatedData),
                       form_topic :=
                         (if truthy (Some (gen_topic generatedData)) then gen_topic generatedData
                          else JStr (trim geminiTopic)),
                       form_explanation := or_empty (gen_explanation generatedData)\<rparr>
                else f))"

text \<open>The states the form can be in when it is submitted: what it starts with, and what
  the effect, the inputs (each rendered from the current options) and the generation
  make of a state.\<close>

inductive form_state :: "form \<Rightarrow> bool" where
  mounted: "form_state (blank_form ic)"
| card_loaded: "form_state f \<Longrightarrow> form_state (load_initialCard (f\<lparr>initialCard := ic\<rparr>))"
| question_typed: "form_state f \<Longrightarrow> form_state (f\<lparr>form_question := JStr v\<rparr>)"
| topic_typed: "form_state f \<Longrightarrow> form_state (f\<lparr>form_topic := JStr v\<rparr>)"
| explanation_typed: "form_state f \<Longrightarrow> form_state (f\<lparr>form_explanation := JStr v\<rparr>)"
| option_typed:
    "form_state f \<Longrightarrow> index < length (form_options f) \<Longrightarrow>
     form_state (handleOptionChange index v f)"
| correct_chosen:
    "form_state f \<Longrightarrow> index < length (form_options f) \<Longrightarrow>
     form_state (f\<lparr>form_correctOptionIndex := Some index\<rparr>)"
| generated: "form_state f \<Longrightarrow> form_state (handleGenerateWithAI r geminiTopic f)"

section \<open>Sample runs\<close>

text \<open>Stand-ins for the values of \<^verbatim>\<open>crypto.randomUUID()\<close>: the \<open>n\<close>-th call gives a
  text of its own.\<close>

definition sample_uuid :: "nat \<Rightarrow> string" where
  "sample_uuid n = ''uuid-'' @ replicate n (CHR ''i'')"

text \<open>An element of the reply with the three required fields.\<close>

definition mcq_item :: "json \<Rightarrow> json list \<Rightarrow> rat \<Rightarrow> json" where
  "mcq_item q opts i =
     JObj [(''question'', q), (''options'', JArr opts), (''correctOptionIndex'', JNum i)]"

text \<open>A run that is never cancelled, in which the file is read, the service answers
  with \<open>text\<close> and the parser reads \<open>text\<close> as the value \<open>v\<close>.\<close>

definition reply_run :: "string \<Rightarrow> json \<Rightarrow> run" where
  "reply_run text v =
     \<lparr>api_configured = True, aborted = (\<lambda>c. False),
      file_event = Loaded ''data:application/pdf;base64,JVBERi0x'',
      generateContent = (\<lambda>q. Inr text),
      json_parse = (\<lambda>s. if s = text then Inr v else Inl ''SyntaxError''),
      randomUUID = sample_uuid\<rparr>"

text \<open>The reply of the two-record example: its text and its parsed elements.\<close>

definition two_record_reply :: string where
  "two_record_reply = ''[{\"question\":\"Q1\",\"options\":[\"A\",\"B\"],\"correctOptionIndex\":0}, {\"question\":\"\",\"options\":[\"A\",\"B\"],\"correctOptionIndex\":0}]''"

definition two_records :: "json list" where
  "two_records = [mcq_item (JStr ''Q1'') [JStr ''A'', JStr ''B''] 0,
                  mcq_item (JStr []) [JStr ''A'', JStr ''B''] 0]"

definition q1_card :: FlashcardMCQ where
  "q1_card =
     \<lparr>card_id = ''uuid-ii'', question = JStr ''Q1'',
      options = [\<lparr>option_id = ''uuid-'', option_text = JStr ''A''\<rparr>,
                 \<lparr>option_id = ''uuid-i'', option_text = JStr ''B''\<rparr>],
      correctOptionId = ''uuid-'', topic = None, explanation = None, sourcePdfName = None\<rparr>"

text \<open>A reply whose only element has one option, with empty text.\<close>

definition blank_option_reply :: string where
  "blank_option_reply = ''[{\"question\":\"Q\",\"options\":[\"\"],\"correctOptionIndex\":0}]''"

text \<open>A reply to the request for one question with four options: it has three.\<close>

definition three_option_reply :: string where
  "three_option_reply = ''{\"question\":\"Q\",\"options\":[\"A\",\"B\",\"C\"],\"correctOptionIndex\":0}''"

definition three_options :: "(string \<times> json) list" where
  "three_options =
     [(''question'', JStr ''Q''), (''options'', JArr [JStr ''A'', JStr ''B'', JStr ''C'']),
      (''correctOptionIndex'', JNum 0)]"

text \<open>A reply to the request for one question with four options, its parsed fields, and
  the card the generation makes of it with the sample identifiers.\<close>

definition four_option_reply :: string where
  "four_option_reply = ''{\"question\":\"Q\",\"options\":[\"A\",\"B\",\"C\",\"D\"],\"correctOptionIndex\":1}''"

definition four_options :: "(string \<times> json) list" where
  "four_options =
     [(''question'', JStr ''Q''),
      (''options'', JArr [JStr ''A'', JStr ''B'', JStr ''C'', JStr ''D'']),
      (''correctOptionIndex'', JNum 1)]"

definition sample_generated :: GeneratedMCQ where
  "sample_generated =
     \<lparr>gen_question = JStr ''Q'',
      gen_options = [\<lparr>option_id = ''uuid-'', option_text = JStr ''A''\<rparr>,
                     \<lparr>option_id = ''uuid-i'', option_text = JStr ''B''\<rparr>,
                     \<lparr>option_id = ''uuid-ii'', option_text = JStr ''C''\<rparr>,
                     \<lparr>option_id = ''uuid-iii'', option_text = JStr ''D''\<rparr>],
      gen_correctOptionId = ''uuid-i'', gen_topic = JStr ''Photosynthesis'',
      gen_explanation = None\<rparr>"

text \<open>A filled form for a new card.\<close>

definition sample_form :: form where
  "sample_form =
     \<lparr>form_question = JStr ''Q'',
      form_options = [JStr ''A'', JStr ''B'', JStr ''C'', JStr ''D''],
      form_correctOptionIndex = Some 2, form_topic = JStr [], form_explanation = JStr [],
      initialCard = None\<rparr>"

text \<open>The card the form saves from it, with the sample identifiers.\<close>

definition sample_saved :: FlashcardMCQ where
  "sample_saved =
     \<lparr>card_id = ''uuid-iiii'', question = JStr ''Q'',
      options = [\<lparr>option_id = ''uuid-'', option_text = JStr ''A''\<rparr>,
                 \<lparr>option_id = ''uuid-i'', option_text = JStr ''B''\<rparr>,
                 \<lparr>option_id = ''uuid-ii'', option_text = JStr ''C''\<rparr>,
                 \<lparr>option_id = ''uuid-iii'', option_text = JStr ''D''\<rparr>],
      correctOptionId = ''uuid-ii'', topic = None, explanation = None, sourcePdfName = None\<rparr>"

section \<open>What the extraction keeps, in the words of its contract\<close>

text \<open>
  The elements the loop is meant to keep: the question is truthy, the options are an
  array of strings, and the index of the correct option is a number from 0 up to, and
  not including, the number of options.
\<close>

definition accepted :: "json \<Rightarrow> bool" where
  "accepted item =
     (case (get_prop item ''question'', get_prop item ''options'',
            get_prop item ''correctOptionIndex'') of
        (Some q, Some (JArr opts), Some (JNum i)) \<Rightarrow>
          truthy (Some q) \<and> list_all is_string opts \<and> 0 \<le> i \<and> i < of_nat (length opts)
      | _ \<Rightarrow> False)"

text \<open>The elements on which the body of the loop raises instead of skipping or keeping:
  null (reading \<^verbatim>\<open>item.question\<close>), and an accepted element whose index is no integer
  (reading \<^verbatim>\<open>id\<close> of undefined) or whose explanation or topic is neither absent, null nor
  a string (no \<^verbatim>\<open>trim\<close> to call).\<close>

definition raises :: "json \<Rightarrow> bool" where
  "raises item =
     (item = JNull
      \<or> (accepted item
          \<and> ((case get_prop item ''correctOptionIndex'' of
                 Some (JNum i) \<Rightarrow> i \<noteq> of_int \<lfloor>i\<rfloor>
               | _ \<Rightarrow> False)
              \<or> trimmed (get_prop item ''explanation'') = Inl TypeError
              \<or> trimmed (get_prop item ''topic'') = Inl TypeError)))"

text \<open>A card is the promotion of an element: same question, the option texts in order,
  the correct option the one at the element's index, explanation and topic trimmed, no
  source yet.\<close>

definition promoted_from :: "FlashcardMCQ \<Rightarrow> json \<Rightarrow> bool" where
  "promoted_from c item =
     (get_prop item ''question'' = Some (question c)
      \<and> get_prop item ''options'' = Some (JArr (map option_text (options c)))
      \<and> (\<exists>n < length (options c).
            get_prop item ''correctOptionIndex'' = Some (JNum (of_nat n))
            \<and> correctOptionId c = option_id (options c ! n))
      \<and> trimmed (get_prop item ''explanation'') = Inr (explanation c)
      \<and> trimmed (get_prop item ''topic'') = Inr (topic c)
      \<and> sourcePdfName c = None)"

text \<open>A reply whose second element has the index 0.5.\<close>

definition fractional_index_reply :: string where
  "fractional_index_reply = ''[{\"question\":\"Q1\",\"options\":[\"A\",\"B\"],\"correctOptionIndex\":0}, {\"question\":\"Q2\",\"options\":[\"A\",\"B\"],\"correctOptionIndex\":0.5}]''"

text \<open>A reply whose only element has a number as its question.\<close>

definition numeric_question_reply :: string where
  "numeric_question_reply = ''[{\"question\":42,\"options\":[\"A\",\"B\"],\"correctOptionIndex\":0}]''"

text \<open>The run of the two-record example with the signal showing aborted at one
  checkpoint only, and a store with one card.\<close>

definition cancelled_at :: "checkpoint \<Rightarrow> run" where
  "cancelled_at cp = (reply_run two_record_reply (JArr two_records))\<lparr>aborted := (\<lambda>c. c = cp)\<rparr>"

definition sample_store :: store where
  "sample_store = \<lparr>flashcards = [sample_card ''a'' ''one''], localStorage = Some ''[...]'', console = []\<rparr>"

text \<open>A run like \<open>reply_run\<close> whose parser is the stand-in for \<^verbatim>\<open>JSON.parse\<close>.\<close>

definition parsing_run :: "string \<Rightarrow> run" where
  "parsing_run reply = (reply_run reply JNull)\<lparr>json_parse := sample_parse\<rparr>"

section \<open>Updating a card\<close>

lemma updateFlashcard_length: "length (updateFlashcard c cs) = length cs"
  by (simp add: updateFlashcard_def)

lemma updateFlashcard_nth:
  "i < length cs \<Longrightarrow>
   updateFlashcard c cs ! i = (if card_id (cs ! i) = card_id c then c else cs ! i)"
  by (simp add: updateFlashcard_def)

lemma updateFlashcard_no_match:
  "card_id c \<notin> card_id ` set cs \<Longrightarrow> updateFlashcard c cs = cs"
  by (induction cs) (auto simp: updateFlashcard_def)

lemma updateFlashcard_distinct:
  "distinct (map card_id cs) \<Longrightarrow> card_id c \<in> card_id ` set cs \<Longrightarrow>
   updateFlashcard c cs = cs[first_index (card_id c) cs := c]"
proof (induction cs)
  case Nil
  then show ?case by simp
next
  case (Cons a cs)
  show ?case
  proof (cases "card_id a = card_id c")
    case True
    with Cons.prems have "card_id c \<notin> card_id ` set cs" by auto
    then have "updateFlashcard c cs = cs" by (rule updateFlashcard_no_match)
    with True show ?thesis by (simp add: updateFlashcard_def)
  next
    case False
    with Cons.prems have "card_id c \<in> card_id ` set cs" by auto
    moreover from Cons.prems have "distinct (map card_id cs)" by simp
    ultimately have "updateFlashcard c cs = cs[first_index (card_id c) cs := c]"
      by (rule Cons.IH[rotated])
    with False show ?thesis by (simp add: updateFlashcard_def)
  qed
qed

text \<open>
  C6 (as stated, refuted). With two stored cards sharing an id, the update replaces
  both: the second card, which is not the first match, is changed as well.
\<close>

theorem C6_update_replaces_every_match:
  "updateFlashcard (sample_card ''x'' ''new'') [sample_card ''x'' ''one'', sample_card ''x'' ''two'']
     = [sample_card ''x'' ''new'', sample_card ''x'' ''new'']
   \<and> updateFlashcard (sample_card ''x'' ''new'') [sample_card ''x'' ''one'', sample_card ''x'' ''two'']
     \<noteq> [sample_card ''x'' ''one'', sample_card ''x'' ''two''][0 := sample_card ''x'' ''new'']"
  by (simp add: updateFlashcard_def sample_card_def)

text \<open>
  C6 (amended). \<open>updateFlashcard\<close> replaces every element whose id equals the id of the
  new card, in place: the length is unchanged and each position holds the new card if
  its old card had that id and its old card otherwise. When the stored ids are distinct
  this is the replacement of the first and only match; when no id matches, the collection
  is unchanged.
\<close>

theorem C6_update_in_place:
  "length (updateFlashcard c cs) = length cs
   \<and> (\<forall>i < length cs.
        updateFlashcard c cs ! i = (if card_id (cs ! i) = card_id c then c else cs ! i))
   \<and> (distinct (map card_id cs) \<and> card_id c \<in> card_id ` set cs \<longrightarrow>
        updateFlashcard c cs = cs[first_index (card_id c) cs := c])
   \<and> (card_id c \<notin> card_id ` set cs \<longrightarrow> updateFlashcard c cs = cs)"
  using updateFlashcard_length updateFlashcard_nth updateFlashcard_distinct
    updateFlashcard_no_match by blast

theorem C6_update_in_place_witness:
  "distinct (map card_id [sample_card ''a'' ''one'', sample_card ''b'' ''two''])
   \<and> card_id (sample_card ''b'' ''new'') \<in> card_id ` set [sample_card ''a'' ''one'', sample_card ''b'' ''two'']
   \<and> card_id (sample_card ''z'' ''new'') \<notin> card_id ` set [sample_card ''a'' ''one'', sample_card ''b'' ''two'']
   \<and> updateFlashcard (sample_card ''b'' ''new'') [sample_card ''a'' ''one'', sample_card ''b'' ''two'']
        = [sample_card ''a'' ''one'', sample_card ''b'' ''new'']
   \<and> updateFlashcard (sample_card ''z'' ''new'') [sample_card ''a'' ''one'', sample_card ''b'' ''two'']
        = [sample_card ''a'' ''one'', sample_card ''b'' ''two'']
   \<and> length (updateFlashcard (sample_card ''b'' ''new'') [sample_card ''a'' ''one'', sample_card ''b'' ''two'']) = 2"
  using C6_update_in_place [of "sample_card ''b'' ''new''" "[sample_card ''a'' ''one'', sample_card ''b'' ''two'']"]
    C6_update_in_place [of "sample_card ''z'' ''new''" "[sample_card ''a'' ''one'', sample_card ''b'' ''two'']"]
  by (simp add: sample_card_def)

section \<open>Persistence failures\<close>

text \<open>
  C8. Whatever the mutation (create, update, delete, bulk append are the updaters
  \<open>addFlashcard c\<close>, \<open>updateFlashcard c\<close>, \<open>deleteFlashcard i\<close> and \<open>\<lambda>prev. prev @ new\<close>),
  when the storage refuses the serialised collection the failure is caught and logged:
  the state holds the mutated collection, the stored text is what it was, one line is
  added to the log, and the operation returns a store like any other.
\<close>

theorem C8_persist_failure_absorbed:
  assumes "\<not> accepts (stringify (updater (flashcards st)))"
  shows "flashcards (setFlashcards accepts stringify updater st) = updater (flashcards st)
       \<and> localStorage (setFlashcards accepts stringify updater st) = localStorage st
       \<and> console (setFlashcards accepts stringify updater st)
           = console st @ [''Error saving flashcards to localStorage:'']"
  using assms by (simp add: setFlashcards_def persist_def setItem_def)

theorem C8_persist_failure_absorbed_witness:
  "\<not> (\<lambda>v. False) ((\<lambda>cs. ''[...]'') (addFlashcard (sample_card ''a'' ''one'') (flashcards \<lparr>flashcards = [], localStorage = Some ''[]'', console = []\<rparr>)))
   \<and> flashcards (setFlashcards (\<lambda>v. False) (\<lambda>cs. ''[...]'') (addFlashcard (sample_card ''a'' ''one''))
        \<lparr>flashcards = [], localStorage = Some ''[]'', console = []\<rparr>) = [sample_card ''a'' ''one'']
   \<and> localStorage (setFlashcards (\<lambda>v. False) (\<lambda>cs. ''[...]'') (addFlashcard (sample_card ''a'' ''one''))
        \<lparr>flashcards = [], localStorage = Some ''[]'', console = []\<rparr>) = Some ''[]''"
  using C8_persist_failure_absorbed [of "\<lambda>v. False" "\<lambda>cs. ''[...]''" "addFlashcard (sample_card ''a'' ''one'')"
      "\<lparr>flashcards = [], localStorage = Some ''[]'', console = []\<rparr>"]
  by (simp add: addFlashcard_def)

section \<open>Loading\<close>

text \<open>
  C3 (as stated, refuted). The stored text \<^verbatim>\<open>null\<close> is valid JSON and no card
  collection; the hook starts with the parsed value null, not with the empty collection.
\<close>

theorem C3_load_keeps_non_collection:
  "fst (initialFlashcards sample_parse (Inr (Some ''null''))) = JNull
   \<and> fst (initialFlashcards sample_parse (Inr (Some ''null''))) \<noteq> JArr []"
  by (simp add: initialFlashcards_def sample_parse_def)

text \<open>
  C3 (amended). Loading never raises. It yields the empty collection when reading the
  storage raises, when nothing is stored, when the stored text is empty and when the
  stored text is not JSON; it logs in the first and the last case. Otherwise it yields
  the value \<^verbatim>\<open>JSON.parse\<close> returns, whatever its shape.
\<close>

theorem C3_load_soft:
  "initialFlashcards parse (Inl e) = (JArr [], [''Error loading flashcards from localStorage:''])
   \<and> initialFlashcards parse (Inr None) = (JArr [], [])
   \<and> initialFlashcards parse (Inr (Some [])) = (JArr [], [])
   \<and> (s \<noteq> [] \<and> parse s = Inl d \<longrightarrow>
        initialFlashcards parse (Inr (Some s)) = (JArr [], [''Error loading flashcards from localStorage:'']))
   \<and> (s \<noteq> [] \<and> parse s = Inr v \<longrightarrow> initialFlashcards parse (Inr (Some s)) = (v, []))"
  by (simp add: initialFlashcards_def)

theorem C3_load_soft_witness:
  "''{bad'' \<noteq> [] \<and> sample_parse ''{bad'' = Inl ''SyntaxError''
   \<and> initialFlashcards sample_parse (Inr (Some ''{bad''))
       = (JArr [], [''Error loading flashcards from localStorage:''])
   \<and> ''[]'' \<noteq> [] \<and> sample_parse ''[]'' = Inr (JArr [])
   \<and> initialFlashcards sample_parse (Inr (Some ''[]'')) = (JArr [], [])"
  using C3_load_soft [of sample_parse StorageFailure "''{bad''" "''SyntaxError''" "JArr []"]
    C3_load_soft [of sample_parse StorageFailure "''[]''" "''SyntaxError''" "JArr []"]
  by (simp add: sample_parse_def)

section \<open>The source index\<close>

lemma add_source_set:
  "set (foldl add_source acc cs)
     = set acc \<union> {n. n \<noteq> [] \<and> (\<exists>c \<in> set cs. sourcePdfName c = Some n)}"
proof (induction cs arbitrary: acc)
  case Nil
  then show ?case by simp
next
  case (Cons c cs)
  show ?case
    unfolding foldl_Cons Cons.IH
    by (cases "sourcePdfName c") (auto simp: add_source_def)
qed

lemma add_source_distinct:
  "distinct acc \<Longrightarrow> distinct (foldl add_source acc cs)"
proof (induction cs arbitrary: acc)
  case Nil
  then show ?case by simp
next
  case (Cons c cs)
  from Cons.prems have "distinct (add_source acc c)"
    by (cases "sourcePdfName c") (auto simp: add_source_def)
  then show ?case by (simp add: Cons.IH)
qed

text \<open>
  C10. The source index holds each non-empty source name of the collection exactly once,
  in ascending lexicographic order; cards without a source name, or with the empty one,
  contribute nothing.
\<close>

theorem C10_source_index:
  "set (uniquePdfSources cs) = {n. n \<noteq> [] \<and> (\<exists>c \<in> set cs. sourcePdfName c = Some n)}
   \<and> distinct (uniquePdfSources cs)
   \<and> sorted (uniquePdfSources cs)"
  by (simp add: uniquePdfSources_def add_source_set add_source_distinct)

theorem C10_source_index_witness:
  "uniquePdfSources [sourced_card ''1'' (Some ''b.pdf''), sourced_card ''2'' None,
                      sourced_card ''3'' (Some ''a.pdf''), sourced_card ''4'' (Some []),
                      sourced_card ''5'' (Some ''b.pdf'')] = [''a.pdf'', ''b.pdf'']
   \<and> set [''a.pdf'', ''b.pdf''] =
       {n. n \<noteq> [] \<and> (\<exists>c \<in> set [sourced_card ''1'' (Some ''b.pdf''), sourced_card ''2'' None,
                      sourced_card ''3'' (Some ''a.pdf''), sourced_card ''4'' (Some []),
                      sourced_card ''5'' (Some ''b.pdf'')]. sourcePdfName c = Some n)}"
proof -
  have e: "uniquePdfSources [sourced_card ''1'' (Some ''b.pdf''), sourced_card ''2'' None,
                      sourced_card ''3'' (Some ''a.pdf''), sourced_card ''4'' (Some []),
                      sourced_card ''5'' (Some ''b.pdf'')] = [''a.pdf'', ''b.pdf'']"
    by code_simp
  show ?thesis
    using C10_source_index [of "[sourced_card ''1'' (Some ''b.pdf''), sourced_card ''2'' None,
                      sourced_card ''3'' (Some ''a.pdf''), sourced_card ''4'' (Some []),
                      sourced_card ''5'' (Some ''b.pdf'')]"]
    unfolding e by simp
qed

section \<open>Option identifiers\<close>

lemma sample_uuid_inj: "inj sample_uuid"
proof (rule injI)
  fix m n assume "sample_uuid m = sample_uuid n"
  then have "length (sample_uuid m) = length (sample_uuid n)" by simp
  then show "m = n" by (simp add: sample_uuid_def)
qed

lemma make_options_length [simp]: "length (make_options uuid k opts) = length opts"
  by (simp add: make_options_def)

lemma make_options_nth:
  "j < length opts \<Longrightarrow>
   make_options uuid k opts ! j = \<lparr>option_id = uuid (k + j), option_text = opts ! j\<rparr>"
  by (simp add: make_options_def nth_enumerate_eq)

lemma make_options_texts [simp]: "map option_text (make_options uuid k opts) = opts"
  by (rule nth_equalityI) (simp_all add: make_options_nth)

lemma make_options_ids:
  "map option_id (make_options uuid k opts) = map uuid [k ..< k + length opts]"
  by (rule nth_equalityI) (simp_all add: make_options_nth)

lemma make_options_distinct:
  "inj uuid \<Longrightarrow> distinct (map option_id (make_options uuid k opts))"
  by (simp add: make_options_ids distinct_map inj_on_def inj_def)

lemma one_match:
  assumes "distinct (map f xs)" and "j < length xs"
  shows "length (filter (\<lambda>x. f x = f (xs ! j)) xs) = 1"
  using assms
proof (induction xs arbitrary: j)
  case Nil
  then show ?case by simp
next
  case (Cons a xs)
  show ?case
  proof (cases j)
    case 0
    from Cons.prems have "f a \<notin> f ` set xs" by simp
    then have "\<forall>x \<in> set xs. f x \<noteq> f a" by (metis imageI)
    then have "filter (\<lambda>x. f x = f a) xs = []" by (simp add: filter_empty_conv)
    with 0 show ?thesis by simp
  next
    case (Suc n)
    with Cons.prems have n: "n < length xs" and d: "distinct (map f xs)" by auto
    from Cons.prems have "f a \<notin> f ` set xs" by simp
    with n have "f a \<noteq> f (xs ! n)" by (metis imageI nth_mem)
    with Cons.IH[OF d n] Suc show ?thesis by simp
  qed
qed

section \<open>Elements that pass the test\<close>

lemma item_valid_fields:
  assumes "\<not> item_invalid item"
  obtains q opts i where
    "get_prop item ''question'' = Some q" "truthy (Some q)"
    "get_prop item ''options'' = Some (JArr opts)" "\<forall>opt \<in> set opts. is_string opt"
    "get_prop item ''correctOptionIndex'' = Some (JNum i)" "0 \<le> i" "i < of_nat (length opts)"
proof -
  from assms have t: "truthy (get_prop item ''question'')"
    by (simp add: item_invalid_def)
  then obtain q where q: "get_prop item ''question'' = Some q"
    by (cases "get_prop item ''question''") auto
  from assms obtain opts where o: "get_prop item ''options'' = Some (JArr opts)"
    by (auto simp: item_invalid_def split: option.splits json.splits)
  from assms o have s: "\<forall>opt \<in> set opts. is_string opt"
    by (auto simp: item_invalid_def)
  from assms o obtain i where i: "get_prop item ''correctOptionIndex'' = Some (JNum i)"
    by (auto simp: item_invalid_def split: option.splits json.splits)
  from assms o i have "0 \<le> i" "i < of_nat (length opts)"
    by (auto simp: item_invalid_def)
  with q t o s i show ?thesis using that by simp
qed

lemma id_at_Inr:
  assumes "id_at xs i = Inr x" "0 \<le> i" "i < of_nat (length xs)"
  obtains n where "i = of_nat n" "n < length xs" "x = option_id (xs ! n)"
proof -
  from assms(1) have e: "i = of_int \<lfloor>i\<rfloor>" and x: "x = option_id (xs ! nat \<lfloor>i\<rfloor>)"
    by (auto simp: id_at_def split: if_splits)
  from assms(2) have nn: "0 \<le> \<lfloor>i\<rfloor>" by simp
  then have "of_int \<lfloor>i\<rfloor> = (of_nat (nat \<lfloor>i\<rfloor>) :: rat)" by simp
  with e have i: "i = of_nat (nat \<lfloor>i\<rfloor>)" by simp
  with assms(3) have "(of_nat (nat \<lfloor>i\<rfloor>) :: rat) < of_nat (length xs)" by simp
  then have "nat \<lfloor>i\<rfloor> < length xs" by (simp only: of_nat_less_iff)
  with i x show ?thesis using that by blast
qed

lemma promote_Inr:
  assumes "promote uuid k item = Inr c"
    and "get_prop item ''question'' = Some q"
    and "get_prop item ''options'' = Some (JArr opts)"
    and "get_prop item ''correctOptionIndex'' = Some (JNum i)"
  shows "question c = q \<and> options c = make_options uuid k opts
       \<and> id_at (make_options uuid k opts) i = Inr (correctOptionId c)
       \<and> card_id c = uuid (k + length opts) \<and> sourcePdfName c = None
       \<and> trimmed (get_prop item ''explanation'') = Inr (explanation c)
       \<and> trimmed (get_prop item ''topic'') = Inr (topic c)"
  using assms by (auto simp: promote_def Let_def split: sum.splits)

lemma promote_one_correct:
  assumes "inj uuid" "\<not> item_invalid item" "promote uuid k item = Inr c"
  shows "length (filter (\<lambda>opt. option_id opt = correctOptionId c) (options c)) = 1"
proof -
  from assms(2) obtain q opts i where f:
    "get_prop item ''question'' = Some q"
    "get_prop item ''options'' = Some (JArr opts)"
    "get_prop item ''correctOptionIndex'' = Some (JNum i)" "0 \<le> i" "i < of_nat (length opts)"
    by (rule item_valid_fields)
  from promote_Inr[OF assms(3) f(1-3)]
  have o: "options c = make_options uuid k opts"
    and a: "id_at (make_options uuid k opts) i = Inr (correctOptionId c)" by simp_all
  from f(5) have "i < of_nat (length (make_options uuid k opts))" by simp
  with a f(4) obtain n where n: "n < length (make_options uuid k opts)"
    "correctOptionId c = option_id (make_options uuid k opts ! n)"
    by (rule id_at_Inr)
  from one_match[OF make_options_distinct[OF assms(1)] n(1)] n(2) o
  show ?thesis by simp
qed

text \<open>A property of every promoted card is a property of every card the loop returns.\<close>

lemma process_items_invariant:
  assumes "process_items r i k items acc = Inr cards"
    and "\<forall>c \<in> set acc. P c"
    and "\<And>item k c. item \<in> set items \<Longrightarrow> \<not> item_invalid item \<Longrightarrow>
           promote (randomUUID r) k item = Inr c \<Longrightarrow> P c"
  shows "\<forall>c \<in> set cards. P c"
  using assms
proof (induction items arbitrary: i k acc)
  case Nil
  then show ?case by simp
next
  case (Cons item rest)
  show ?case
  proof (cases "item_invalid item")
    case True
    with Cons.prems(1) have "process_items r (Suc i) k rest acc = Inr cards"
      by (simp split: if_splits)
    then show ?thesis
      by (rule Cons.IH) (use Cons.prems in auto)
  next
    case False
    with Cons.prems(1) obtain c where c: "promote (randomUUID r) k item = Inr c"
      and rec: "process_items r (Suc i) (k + ids_drawn item) rest (acc @ [c]) = Inr cards"
      by (auto split: if_splits sum.splits)
    from Cons.prems(3)[OF _ False c] have "P c" by simp
    with Cons.prems(2) have "\<forall>x \<in> set (acc @ [c]). P x" by simp
    with rec show ?thesis
      by (rule Cons.IH) (use Cons.prems in auto)
  qed
qed

lemma extract_Inr_items:
  assumes "extractMCQsFromPDF r = Inr cards"
  obtains items where "process_items r 0 0 items [] = Inr cards"
  using assms
  by (auto simp: extractMCQsFromPDF_def split: if_splits sum.splits json.splits)

lemma promote_shape:
  assumes "\<not> item_invalid item" "promote uuid k item = Inr c"
  shows "1 \<le> length (options c) \<and> (\<forall>opt \<in> set (options c). is_string (option_text opt))"
proof -
  from assms(1) obtain q opts i where f:
    "get_prop item ''question'' = Some q"
    "get_prop item ''options'' = Some (JArr opts)" "\<forall>opt \<in> set opts. is_string opt"
    "get_prop item ''correctOptionIndex'' = Some (JNum i)" "0 \<le> i" "i < of_nat (length opts)"
    by (rule item_valid_fields)
  from promote_Inr[OF assms(2) f(1,2,4)] have o: "options c = make_options uuid k opts"
    by simp
  from f(5,6) have "(0::rat) < of_nat (length opts)" by (rule le_less_trans)
  then have "0 < length opts" by (simp only: of_nat_0_less_iff)
  then have l: "1 \<le> length opts" by (cases opts) simp_all
  have "option_text ` set (make_options uuid k opts) = set opts"
    by (metis make_options_texts set_map)
  with f(3) have "\<forall>opt \<in> set (make_options uuid k opts). is_string (option_text opt)"
    by auto
  with o l show ?thesis by simp
qed

section \<open>Sample runs, evaluated\<close>

lemma two_record_reply_plain: "strip_fence two_record_reply = two_record_reply"
  unfolding two_record_reply_def by code_simp

lemma blank_option_reply_plain: "strip_fence blank_option_reply = blank_option_reply"
  unfolding blank_option_reply_def by code_simp

lemma three_option_reply_plain: "strip_fence three_option_reply = three_option_reply"
  unfolding three_option_reply_def by code_simp

lemma reply_run_extract:
  "strip_fence reply = reply \<Longrightarrow>
   extractMCQsFromPDF (reply_run reply (JArr items))
     = process_items (reply_run reply (JArr items)) 0 0 items []"
  by (simp add: extractMCQsFromPDF_def reply_run_def readFileAsBase64_def)

lemma two_record_extract:
  "extractMCQsFromPDF (reply_run two_record_reply (JArr two_records)) = Inr [q1_card]"
  unfolding reply_run_extract[OF two_record_reply_plain]
  by (simp add: reply_run_def two_records_def mcq_item_def item_invalid_def promote_def
      make_options_def id_at_def ids_drawn_def sample_uuid_def q1_card_def)

section \<open>Generating one question\<close>

lemma generated_valid_fields:
  assumes "\<not> generated_invalid n d"
  obtains q opts i where
    "get_prop d ''question'' = Some q" "get_prop d ''options'' = Some (JArr opts)"
    "length opts = n" "get_prop d ''correctOptionIndex'' = Some (JNum i)"
    "0 \<le> i" "i < of_nat n"
proof -
  from assms have "truthy (get_prop d ''question'')"
    by (simp add: generated_invalid_def)
  then obtain q where q: "get_prop d ''question'' = Some q"
    by (cases "get_prop d ''question''") auto
  from assms obtain opts where o: "get_prop d ''options'' = Some (JArr opts)"
    by (auto simp: generated_invalid_def split: option.splits json.splits)
  from assms o have l: "length opts = n"
    by (auto simp: generated_invalid_def)
  from assms o obtain i where i: "get_prop d ''correctOptionIndex'' = Some (JNum i)"
    by (auto simp: generated_invalid_def split: option.splits json.splits)
  from assms o i have "0 \<le> i" "i < of_nat n"
    by (auto simp: generated_invalid_def)
  with q o l i show ?thesis using that by simp
qed

lemma generate_Inr:
  assumes "generateMCQWithGemini r t n = Inr g"
  obtains opts i where "gen_options g = make_options (randomUUID r) 0 opts"
    "id_at (make_options (randomUUID r) 0 opts) i = Inr (gen_correctOptionId g)"
    "length opts = n" "0 \<le> i" "i < of_nat n"
proof -
  from assms obtain d where d: "\<not> generated_invalid n d"
    and g: "build_generated (randomUUID r) t d = Inr g"
    by (auto simp: generateMCQWithGemini_def split: if_splits sum.splits)
  from d obtain q opts i where f:
    "get_prop d ''question'' = Some q" "get_prop d ''options'' = Some (JArr opts)"
    "length opts = n" "get_prop d ''correctOptionIndex'' = Some (JNum i)"
    "0 \<le> i" "i < of_nat n"
    by (rule generated_valid_fields)
  from g f(1,2,4) have "gen_options g = make_options (randomUUID r) 0 opts"
    "id_at (make_options (randomUUID r) 0 opts) i = Inr (gen_correctOptionId g)"
    by (auto simp: build_generated_def Let_def split: sum.splits)
  with f show ?thesis using that by blast
qed

text \<open>
  C9. When the reply to a request for one question parses to an object whose options are
  not an array of the requested length, or whose correctOptionIndex is not a number in
  the range of the requested length, the generation fails with the
  invalid-structure error; nothing is skipped.
\<close>

theorem C9_generate_invalid:
  assumes "api_configured r"
    and "generateContent r (TopicRequest t n) = Inr reply"
    and "json_parse r (strip_fence reply) = Inr (JObj fs)"
    and "(\<forall>opts. map_of fs ''options'' = Some (JArr opts) \<longrightarrow> length opts \<noteq> n)
         \<or> (\<forall>i. map_of fs ''correctOptionIndex'' = Some (JNum i) \<longrightarrow> i < 0 \<or> of_nat n \<le> i)"
  shows "generateMCQWithGemini r t n = Inl InvalidStructure"
proof -
  from assms(4) have "generated_invalid n (JObj fs)"
    by (auto simp: generated_invalid_def split: option.splits json.splits)
  with assms(1-3) show ?thesis
    by (simp add: generateMCQWithGemini_def)
qed

theorem C9_generate_invalid_witness:
  "generateMCQWithGemini (reply_run three_option_reply (JObj three_options)) ''Photosynthesis'' 4
     = Inl InvalidStructure"
proof -
  have a: "api_configured (reply_run three_option_reply (JObj three_options))"
    by (simp add: reply_run_def)
  have b: "generateContent (reply_run three_option_reply (JObj three_options))
             (TopicRequest ''Photosynthesis'' 4) = Inr three_option_reply"
    by (simp add: reply_run_def)
  have c: "json_parse (reply_run three_option_reply (JObj three_options))
             (strip_fence three_option_reply) = Inr (JObj three_options)"
    by (simp add: reply_run_def three_option_reply_plain)
  have d: "(\<forall>opts. map_of three_options ''options'' = Some (JArr opts) \<longrightarrow> length opts \<noteq> 4)
         \<or> (\<forall>i. map_of three_options ''correctOptionIndex'' = Some (JNum i) \<longrightarrow> i < 0 \<or> of_nat 4 \<le> i)"
    by (simp add: three_options_def)
  from C9_generate_invalid [OF a b c d] show ?thesis .
qed

section \<open>The correct option\<close>

lemma trimmed_cases: "trimmed x = Inl TypeError \<or> (\<exists>s. trimmed x = Inr s)"
  by (induction x rule: trimmed.induct) auto

lemma build_generated_returns:
  assumes "\<not> generated_invalid n d"
    and "\<forall>i. get_prop d ''correctOptionIndex'' = Some (JNum i) \<longrightarrow> i = of_int \<lfloor>i\<rfloor>"
    and "trimmed (get_prop d ''explanation'') \<noteq> Inl TypeError"
  shows "\<exists>g. build_generated uuid t d = Inr g"
proof -
  from assms(1) obtain q opts i where f:
    "get_prop d ''question'' = Some q" "get_prop d ''options'' = Some (JArr opts)"
    "get_prop d ''correctOptionIndex'' = Some (JNum i)"
    by (rule generated_valid_fields)
  from assms(2) f(3) have "i = of_int \<lfloor>i\<rfloor>" by simp
  then have "\<exists>x. id_at (make_options uuid 0 opts) i = Inr x" by (simp add: id_at_def)
  moreover from assms(3) trimmed_cases[of "get_prop d ''explanation''"]
  have "\<exists>ex. trimmed (get_prop d ''explanation'') = Inr ex" by auto
  ultimately show ?thesis using f by (auto simp: build_generated_def Let_def)
qed

text \<open>
  C5. When the generator never returns the same identifier twice, every card returned by
  the extraction and the card returned by the generation of one question have exactly
  one option whose id is the card's correctOptionId. The generation does return a card
  when the service answers with an object that passes its test, whose index is an
  integer and whose explanation is absent, null or a string.
\<close>

theorem C5_one_correct_option:
  assumes "inj (randomUUID r)"
  shows "(\<forall>cards. extractMCQsFromPDF r = Inr cards \<longrightarrow>
            (\<forall>c \<in> set cards.
               length (filter (\<lambda>opt. option_id opt = correctOptionId c) (options c)) = 1))
       \<and> (\<forall>g. generateMCQWithGemini r t n = Inr g \<longrightarrow>
            length (filter (\<lambda>opt. option_id opt = gen_correctOptionId g) (gen_options g)) = 1)
       \<and> (api_configured r \<and> generateContent r (TopicRequest t n) = Inr reply
            \<and> json_parse r (strip_fence reply) = Inr d \<and> d \<noteq> JNull
            \<and> \<not> generated_invalid n d
            \<and> (\<forall>i. get_prop d ''correctOptionIndex'' = Some (JNum i) \<longrightarrow> i = of_int \<lfloor>i\<rfloor>)
            \<and> trimmed (get_prop d ''explanation'') \<noteq> Inl TypeError
            \<longrightarrow> (\<exists>g. generateMCQWithGemini r t n = Inr g))"
proof (intro conjI allI impI)
  fix cards assume "extractMCQsFromPDF r = Inr cards"
  then obtain items where "process_items r 0 0 items [] = Inr cards"
    by (rule extract_Inr_items)
  then show "\<forall>c \<in> set cards.
      length (filter (\<lambda>opt. option_id opt = correctOptionId c) (options c)) = 1"
    by (rule process_items_invariant) (simp_all add: promote_one_correct[OF assms])
next
  fix g assume "generateMCQWithGemini r t n = Inr g"
  then obtain opts i where g: "gen_options g = make_options (randomUUID r) 0 opts"
    "id_at (make_options (randomUUID r) 0 opts) i = Inr (gen_correctOptionId g)"
    "length opts = n" "0 \<le> i" "i < of_nat n"
    by (rule generate_Inr)
  from g(3,5) have "i < of_nat (length (make_options (randomUUID r) 0 opts))" by simp
  with g(2,4) obtain m where m: "m < length (make_options (randomUUID r) 0 opts)"
    "gen_correctOptionId g = option_id (make_options (randomUUID r) 0 opts ! m)"
    by (rule id_at_Inr)
  from one_match[OF make_options_distinct[OF assms] m(1)] m(2) g(1)
  show "length (filter (\<lambda>opt. option_id opt = gen_correctOptionId g) (gen_options g)) = 1"
    by simp
next
  assume h: "api_configured r \<and> generateContent r (TopicRequest t n) = Inr reply
            \<and> json_parse r (strip_fence reply) = Inr d \<and> d \<noteq> JNull
            \<and> \<not> generated_invalid n d
            \<and> (\<forall>i. get_prop d ''correctOptionIndex'' = Some (JNum i) \<longrightarrow> i = of_int \<lfloor>i\<rfloor>)
            \<and> trimmed (get_prop d ''explanation'') \<noteq> Inl TypeError"
  then obtain g where "build_generated (randomUUID r) t d = Inr g"
    using build_generated_returns by blast
  with h show "\<exists>g. generateMCQWithGemini r t n = Inr g"
    by (simp add: generateMCQWithGemini_def)
qed

lemma four_option_reply_plain: "strip_fence four_option_reply = four_option_reply"
  unfolding four_option_reply_def by code_simp

lemma four_option_generated:
  "generateMCQWithGemini (reply_run four_option_reply (JObj four_options)) ''Photosynthesis'' 4
     = Inr sample_generated"
  by (simp add: generateMCQWithGemini_def reply_run_def four_option_reply_plain four_options_def
      generated_invalid_def build_generated_def make_options_def id_at_def sample_uuid_def
      sample_generated_def)

theorem C5_one_correct_option_witness:
  "inj (randomUUID (reply_run two_record_reply (JArr two_records)))
   \<and> extractMCQsFromPDF (reply_run two_record_reply (JArr two_records)) = Inr [q1_card]
   \<and> length (filter (\<lambda>opt. option_id opt = correctOptionId q1_card) (options q1_card)) = 1
   \<and> inj (randomUUID (reply_run four_option_reply (JObj four_options)))
   \<and> generateMCQWithGemini (reply_run four_option_reply (JObj four_options)) ''Photosynthesis'' 4
       = Inr sample_generated
   \<and> length (filter (\<lambda>opt. option_id opt = gen_correctOptionId sample_generated)
                (gen_options sample_generated)) = 1"
proof -
  have i: "inj (randomUUID (reply_run two_record_reply (JArr two_records)))"
    by (simp add: reply_run_def sample_uuid_inj)
  have j: "inj (randomUUID (reply_run four_option_reply (JObj four_options)))"
    by (simp add: reply_run_def sample_uuid_inj)
  let ?r = "reply_run four_option_reply (JObj four_options)"
  have h: "api_configured ?r \<and> generateContent ?r (TopicRequest ''Photosynthesis'' 4) = Inr four_option_reply
      \<and> json_parse ?r (strip_fence four_option_reply) = Inr (JObj four_options)
      \<and> JObj four_options \<noteq> JNull \<and> \<not> generated_invalid 4 (JObj four_options)
      \<and> (\<forall>i. get_prop (JObj four_options) ''correctOptionIndex'' = Some (JNum i) \<longrightarrow> i = of_int \<lfloor>i\<rfloor>)
      \<and> trimmed (get_prop (JObj four_options) ''explanation'') \<noteq> Inl TypeError"
    by (simp add: reply_run_def four_option_reply_plain four_options_def generated_invalid_def)
  from C5_one_correct_option [OF j, of "''Photosynthesis''" 4 four_option_reply "JObj four_options"] h
  have "\<exists>g. generateMCQWithGemini ?r ''Photosynthesis'' 4 = Inr g" by blast
  with C5_one_correct_option [OF i] C5_one_correct_option [OF j, of "''Photosynthesis''" 4]
    two_record_extract four_option_generated i j
  show ?thesis by simp
qed

section \<open>The shape of new cards\<close>

lemma form_option_ids_texts:
  "map option_text (fst (form_option_ids uuid k olds texts)) = texts"
  by (induction uuid k olds texts rule: form_option_ids.induct)
     (auto simp: Let_def split: prod.splits)

lemma some_blank_False:
  "some_blank texts = Inr False \<Longrightarrow> \<forall>v \<in> set texts. \<exists>s. v = JStr s \<and> trim s \<noteq> []"
  by (induction texts rule: some_blank.induct) (auto split: if_splits)

lemma handleSubmit_Saved:
  assumes "handleSubmit uuid f = Saved c"
  shows "map option_text (options c) = form_options f \<and> some_blank (form_options f) = Inr False"
proof -
  from assms have b: "some_blank (form_options f) = Inr False"
    by (auto simp: handleSubmit_def split: json.splits if_splits sum.splits bool.splits)
  from assms have "options c = fst (form_option_ids uuid 0
        (case initialCard f of None \<Rightarrow> [] | Some c \<Rightarrow> options c) (form_options f))"
    by (auto simp: handleSubmit_def Let_def
        split: json.splits if_splits sum.splits bool.splits option.splits prod.splits)
  with b show ?thesis by (simp add: form_option_ids_texts)
qed

text \<open>
  C4 (as stated, refuted). A reply element with a single option whose text is empty
  passes the test of the extraction: the card it becomes has one option, and that
  option's text is empty.
\<close>

theorem C4_blank_single_option:
  "extractMCQsFromPDF (reply_run blank_option_reply (JArr [mcq_item (JStr ''Q'') [JStr []] 0]))
     = Inr [\<lparr>card_id = ''uuid-i'', question = JStr ''Q'',
              options = [\<lparr>option_id = ''uuid-'', option_text = JStr []\<rparr>],
              correctOptionId = ''uuid-'', topic = None, explanation = None,
              sourcePdfName = None\<rparr>]"
  unfolding reply_run_extract[OF blank_option_reply_plain]
  by (simp add: reply_run_def mcq_item_def item_invalid_def promote_def make_options_def
      id_at_def ids_drawn_def sample_uuid_def)

lemma generate_length:
  assumes "generateMCQWithGemini r t n = Inr g"
  shows "length (gen_options g) = n"
proof -
  from assms obtain opts i where "gen_options g = make_options (randomUUID r) 0 opts"
    "length opts = n"
    by (rule generate_Inr)
  then show ?thesis by simp
qed

lemma form_state_four: "form_state f \<Longrightarrow> length (form_options f) = 4"
proof (induction rule: form_state.induct)
  case (mounted ic)
  show ?case by (simp add: blank_form_def)
next
  case (card_loaded f ic)
  show ?case by (cases ic) (simp_all add: load_initialCard_def blank_form_def)
next
  case (generated f r geminiTopic)
  then show ?case
    by (auto simp: handleGenerateWithAI_def generate_length split: sum.splits)
qed (simp_all add: handleOptionChange_def)

lemma sample_form_state: "form_state sample_form"
proof -
  have 0: "form_state (blank_form None)" by (rule mounted)
  from question_typed[OF 0, of "''Q''"]
  have 1: "form_state ((blank_form None)\<lparr>form_question := JStr ''Q''\<rparr>)" .
  have 2: "form_state (handleOptionChange 0 ''A'' ((blank_form None)\<lparr>form_question := JStr ''Q''\<rparr>))"
    by (rule option_typed[OF 1]) (simp add: blank_form_def)
  have 3: "form_state (handleOptionChange 1 ''B'' (handleOptionChange 0 ''A''
      ((blank_form None)\<lparr>form_question := JStr ''Q''\<rparr>)))"
    by (rule option_typed[OF 2]) (simp add: blank_form_def handleOptionChange_def)
  have 4: "form_state (handleOptionChange 2 ''C'' (handleOptionChange 1 ''B''
      (handleOptionChange 0 ''A'' ((blank_form None)\<lparr>form_question := JStr ''Q''\<rparr>))))"
    by (rule option_typed[OF 3]) (simp add: blank_form_def handleOptionChange_def)
  have 5: "form_state (handleOptionChange 3 ''D'' (handleOptionChange 2 ''C''
      (handleOptionChange 1 ''B'' (handleOptionChange 0 ''A''
      ((blank_form None)\<lparr>form_question := JStr ''Q''\<rparr>)))))"
    by (rule option_typed[OF 4]) (simp add: blank_form_def handleOptionChange_def)
  have "form_state ((handleOptionChange 3 ''D'' (handleOptionChange 2 ''C''
      (handleOptionChange 1 ''B'' (handleOptionChange 0 ''A''
      ((blank_form None)\<lparr>form_question := JStr ''Q''\<rparr>)))))\<lparr>form_correctOptionIndex := Some 2\<rparr>)"
    by (rule correct_chosen[OF 5]) (simp add: blank_form_def handleOptionChange_def)
  moreover have "(handleOptionChange 3 ''D'' (handleOptionChange 2 ''C''
      (handleOptionChange 1 ''B'' (handleOptionChange 0 ''A''
      ((blank_form None)\<lparr>form_question := JStr ''Q''\<rparr>)))))\<lparr>form_correctOptionIndex := Some 2\<rparr>
      = sample_form"
    by (simp add: blank_form_def handleOptionChange_def sample_form_def)
  ultimately show ?thesis by simp
qed

text \<open>
  C4 (amended). Every card the extraction returns has at least one option, and the text
  of each of its options is a string, which may be empty: the import enforces neither two
  options nor non-empty texts. A card saved by the creation form, in any state the form
  can reach, has four options, so at least two, and the text of each is a string that is
  not blank.
\<close>

theorem C4_new_card_shape:
  "(\<forall>cards. extractMCQsFromPDF r = Inr cards \<longrightarrow>
      (\<forall>c \<in> set cards. 1 \<le> length (options c)
                       \<and> (\<forall>opt \<in> set (options c). is_string (option_text opt))))
   \<and> (\<forall>c. form_state f \<and> handleSubmit uuid f = Saved c \<longrightarrow>
        length (options c) = 4 \<and> 2 \<le> length (options c)
        \<and> (\<forall>opt \<in> set (options c). \<exists>s. option_text opt = JStr s \<and> trim s \<noteq> []))"
proof (intro conjI allI impI)
  fix cards assume "extractMCQsFromPDF r = Inr cards"
  then obtain items where "process_items r 0 0 items [] = Inr cards"
    by (rule extract_Inr_items)
  then show "\<forall>c \<in> set cards. 1 \<le> length (options c)
      \<and> (\<forall>opt \<in> set (options c). is_string (option_text opt))"
    by (rule process_items_invariant) (use promote_shape in auto)
next
  fix c assume a: "form_state f \<and> handleSubmit uuid f = Saved c"
  then have s: "handleSubmit uuid f = Saved c" and four: "length (form_options f) = 4"
    by (simp_all add: form_state_four)
  from handleSubmit_Saved[OF s] have t: "map option_text (options c) = form_options f"
    and b: "some_blank (form_options f) = Inr False" by simp_all
  from t four show l: "length (options c) = 4"
    by (metis length_map)
  then show "2 \<le> length (options c)" by simp
  from some_blank_False[OF b] t
  show "\<forall>opt \<in> set (options c). \<exists>s. option_text opt = JStr s \<and> trim s \<noteq> []"
    by (metis imageI set_map)
qed

lemma sample_form_saved: "handleSubmit sample_uuid sample_form = Saved sample_saved"
  unfolding sample_saved_def by code_simp

theorem C4_new_card_shape_witness:
  "extractMCQsFromPDF (reply_run two_record_reply (JArr two_records)) = Inr [q1_card]
   \<and> 1 \<le> length (options q1_card)
   \<and> list_all (\<lambda>opt. is_string (option_text opt)) (options q1_card)
   \<and> form_state sample_form
   \<and> handleSubmit sample_uuid sample_form = Saved sample_saved
   \<and> length (options sample_saved) = 4
   \<and> list_all (\<lambda>opt. \<exists>s. option_text opt = JStr s \<and> trim s \<noteq> []) (options sample_saved)"
  using C4_new_card_shape [of "reply_run two_record_reply (JArr two_records)" sample_form sample_uuid]
    two_record_extract sample_form_saved sample_form_state
  by (simp add: list_all_iff)

section \<open>What the extraction keeps\<close>

lemma accepted_fields:
  assumes "accepted item"
  obtains q opts i where
    "get_prop item ''question'' = Some q" "truthy (Some q)"
    "get_prop item ''options'' = Some (JArr opts)" "list_all is_string opts"
    "get_prop item ''correctOptionIndex'' = Some (JNum i)" "0 \<le> i" "i < of_nat (length opts)"
proof (cases "get_prop item ''question''")
  case None
  with assms show ?thesis by (simp add: accepted_def)
next
  case q: (Some q)
  show ?thesis
  proof (cases "get_prop item ''options''")
    case None
    with assms q show ?thesis by (simp add: accepted_def)
  next
    case o: (Some ov)
    show ?thesis
    proof (cases "get_prop item ''correctOptionIndex''")
      case None
      with assms q o show ?thesis by (simp add: accepted_def split: json.splits)
    next
      case i: (Some iv)
      from assms q o i obtain opts where ov: "ov = JArr opts"
        by (cases ov) (simp_all add: accepted_def)
      from assms q o i ov obtain n where iv: "iv = JNum n"
        by (cases iv) (simp_all add: accepted_def)
      from assms q o i ov iv that show ?thesis
        by (simp add: accepted_def)
    qed
  qed
qed

lemma accepted_iff: "accepted item \<longleftrightarrow> \<not> item_invalid item"
proof
  assume "accepted item"
  then obtain q opts i where
    "get_prop item ''question'' = Some q" "truthy (Some q)"
    "get_prop item ''options'' = Some (JArr opts)" "list_all is_string opts"
    "get_prop item ''correctOptionIndex'' = Some (JNum i)" "0 \<le> i" "i < of_nat (length opts)"
    by (rule accepted_fields)
  then show "\<not> item_invalid item"
    by (simp add: item_invalid_def list_all_iff not_le)
next
  assume "\<not> item_invalid item"
  then obtain q opts i where
    "get_prop item ''question'' = Some q" "truthy (Some q)"
    "get_prop item ''options'' = Some (JArr opts)" "\<forall>opt \<in> set opts. is_string opt"
    "get_prop item ''correctOptionIndex'' = Some (JNum i)" "0 \<le> i" "i < of_nat (length opts)"
    by (rule item_valid_fields)
  then show "accepted item"
    by (simp add: accepted_def list_all_iff)
qed

lemma promote_accepted:
  assumes "accepted item" "\<not> raises item"
  shows "\<exists>c. promote uuid k item = Inr c \<and> promoted_from c item"
proof -
  from assms(1) have "\<not> item_invalid item" by (simp add: accepted_iff)
  then obtain q opts i where f:
    "get_prop item ''question'' = Some q"
    "get_prop item ''options'' = Some (JArr opts)"
    "get_prop item ''correctOptionIndex'' = Some (JNum i)" "0 \<le> i" "i < of_nat (length opts)"
    by (rule item_valid_fields)
  from assms f(3) have int: "i = of_int \<lfloor>i\<rfloor>"
    by (auto simp: raises_def)
  from assms trimmed_cases[of "get_prop item ''explanation''"]
  obtain ex where ex: "trimmed (get_prop item ''explanation'') = Inr ex"
    by (auto simp: raises_def)
  from assms trimmed_cases[of "get_prop item ''topic''"]
  obtain tp where tp: "trimmed (get_prop item ''topic'') = Inr tp"
    by (auto simp: raises_def)
  define n where "n = nat \<lfloor>i\<rfloor>"
  from f(4) have "of_int \<lfloor>i\<rfloor> = (of_nat n :: rat)" by (simp add: n_def)
  with int have i: "i = of_nat n" by simp
  with f(5) have "(of_nat n :: rat) < of_nat (length opts)" by simp
  then have n: "n < length opts" by (simp only: of_nat_less_iff)
  let ?c = "\<lparr>card_id = uuid (k + length opts), question = q,
             options = make_options uuid k opts,
             correctOptionId = option_id (make_options uuid k opts ! n),
             topic = tp, explanation = ex, sourcePdfName = None\<rparr>"
  from int have "id_at (make_options uuid k opts) i = Inr (option_id (make_options uuid k opts ! n))"
    by (simp add: id_at_def n_def)
  with f(1-3) ex tp have p: "promote uuid k item = Inr ?c"
    by (simp add: promote_def Let_def)
  from f(1-3) ex tp n i have "promoted_from ?c item"
    by (auto simp: promoted_from_def)
  with p show ?thesis by blast
qed

lemma skipped_warnings_filter:
  assumes "\<forall>j. \<not> aborted r (AtItem j)" "\<forall>item \<in> set items. \<not> raises item"
  shows "skipped_warnings r i k items = filter (\<lambda>item. \<not> accepted item) items"
  using assms(2)
proof (induction items arbitrary: i k)
  case Nil
  then show ?case by simp
next
  case (Cons item rest)
  from Cons.prems have nr: "\<not> raises item" and rest: "\<forall>x \<in> set rest. \<not> raises x" by simp_all
  from nr have nn: "item \<noteq> JNull" by (simp add: raises_def)
  show ?case
  proof (cases "accepted item")
    case False
    then have "item_invalid item" by (simp add: accepted_iff)
    with Cons.IH[OF rest] assms(1) nn False show ?thesis by simp
  next
    case True
    then have inv: "\<not> item_invalid item" by (simp add: accepted_iff)
    from promote_accepted[OF True nr] obtain c where
      "promote (randomUUID r) k item = Inr c" by blast
    with Cons.IH[OF rest] assms(1) nn inv True show ?thesis by simp
  qed
qed

lemma process_items_filter:
  assumes "\<forall>j. \<not> aborted r (AtItem j)" "\<forall>item \<in> set items. \<not> raises item"
  shows "\<exists>new. process_items r i k items acc = Inr (acc @ new)
             \<and> list_all2 promoted_from new (filter accepted items)"
  using assms(2)
proof (induction items arbitrary: i k acc)
  case Nil
  then show ?case by simp
next
  case (Cons item rest)
  from Cons.prems have nr: "\<not> raises item" and rest: "\<forall>x \<in> set rest. \<not> raises x" by simp_all
  from nr have nn: "item \<noteq> JNull" by (simp add: raises_def)
  show ?case
  proof (cases "accepted item")
    case False
    then have inv: "item_invalid item" by (simp add: accepted_iff)
    from Cons.IH[OF rest, of "Suc i" k acc] assms(1) nn inv False
    show ?thesis by simp
  next
    case True
    then have inv: "\<not> item_invalid item" by (simp add: accepted_iff)
    from promote_accepted[OF True nr] obtain c where
      c: "promote (randomUUID r) k item = Inr c" "promoted_from c item" by blast
    from Cons.IH[OF rest, of "Suc i" "k + ids_drawn item" "acc @ [c]"] obtain new where
      new: "process_items r (Suc i) (k + ids_drawn item) rest (acc @ [c]) = Inr ((acc @ [c]) @ new)"
        "list_all2 promoted_from new (filter accepted rest)" by blast
    from new(1) c(1) assms(1) nn inv
    have "process_items r i k (item # rest) acc = Inr (acc @ (c # new))" by simp
    moreover from new(2) c(2) True
    have "list_all2 promoted_from (c # new) (filter accepted (item # rest))" by simp
    ultimately show ?thesis by blast
  qed
qed

text \<open>
  C1 (amended). When the run is not cancelled and the stripped reply parses to an array
  none of whose elements makes the loop raise, the extraction returns, in the order of
  the reply, exactly the promotions of the accepted elements: those whose question is
  truthy (a non-empty string, but also a non-zero number, true, an array or an object),
  whose options are an array of strings and whose correctOptionIndex is a number in
  the range of the options. Every other element is skipped, and the skipped elements
  are what the loop logs.
\<close>

theorem C1_extract_keeps_accepted:
  assumes "api_configured r" and "\<forall>c. \<not> aborted r c"
    and "readFileAsBase64 r = Inr b"
    and "generateContent r (PdfRequest b) = Inr reply"
    and "json_parse r (strip_fence reply) = Inr (JArr items)"
    and "\<forall>item \<in> set items. \<not> raises item"
  shows "(\<exists>cards. extractMCQsFromPDF r = Inr cards
               \<and> list_all2 promoted_from cards (filter accepted items))
       \<and> skipped_warnings r 0 0 items = filter (\<lambda>item. \<not> accepted item) items"
proof -
  from assms(2) have na: "\<forall>j. \<not> aborted r (AtItem j)" by simp
  from process_items_filter[OF na assms(6), of 0 0 "[]"] obtain cards where
    c: "process_items r 0 0 items [] = Inr cards"
       "list_all2 promoted_from cards (filter accepted items)" by auto
  from assms(1-5) c(1) have "extractMCQsFromPDF r = Inr cards"
    by (simp add: extractMCQsFromPDF_def)
  with c(2) skipped_warnings_filter[OF na assms(6)] show ?thesis by blast
qed

lemma numeric_question_reply_plain: "strip_fence numeric_question_reply = numeric_question_reply"
  unfolding numeric_question_reply_def by code_simp

text \<open>
  C1 (as stated, refuted). An element whose question is the number 42 is no element with
  a non-empty string as question, yet it is kept.
\<close>

theorem C1_numeric_question_kept:
  "extractMCQsFromPDF (reply_run numeric_question_reply
       (JArr [mcq_item (JNum 42) [JStr ''A'', JStr ''B''] 0]))
     = Inr [\<lparr>card_id = ''uuid-ii'', question = JNum 42,
              options = [\<lparr>option_id = ''uuid-'', option_text = JStr ''A''\<rparr>,
                         \<lparr>option_id = ''uuid-i'', option_text = JStr ''B''\<rparr>],
              correctOptionId = ''uuid-'', topic = None, explanation = None,
              sourcePdfName = None\<rparr>]"
  unfolding reply_run_extract[OF numeric_question_reply_plain]
  by (simp add: reply_run_def mcq_item_def item_invalid_def promote_def make_options_def
      id_at_def ids_drawn_def sample_uuid_def)

theorem C1_extract_keeps_accepted_witness:
  "extractMCQsFromPDF (reply_run two_record_reply (JArr two_records)) = Inr [q1_card]
   \<and> skipped_warnings (reply_run two_record_reply (JArr two_records)) 0 0 two_records
       = [mcq_item (JStr []) [JStr ''A'', JStr ''B''] 0]
   \<and> filter accepted two_records = [mcq_item (JStr ''Q1'') [JStr ''A'', JStr ''B''] 0]
   \<and> promoted_from q1_card (mcq_item (JStr ''Q1'') [JStr ''A'', JStr ''B''] 0)
   \<and> question q1_card = JStr ''Q1''
   \<and> map option_text (filter (\<lambda>opt. option_id opt = correctOptionId q1_card) (options q1_card))
       = [JStr ''A'']"
proof -
  let ?r = "reply_run two_record_reply (JArr two_records)"
  have a: "api_configured ?r" "\<forall>c. \<not> aborted ?r c"
    "readFileAsBase64 ?r = Inr ''JVBERi0x''"
    "generateContent ?r (PdfRequest ''JVBERi0x'') = Inr two_record_reply"
    "json_parse ?r (strip_fence two_record_reply) = Inr (JArr two_records)"
    by (simp_all add: reply_run_def readFileAsBase64_def two_record_reply_plain)
  have f: "filter accepted two_records = [mcq_item (JStr ''Q1'') [JStr ''A'', JStr ''B''] 0]"
    by (simp add: two_records_def accepted_def mcq_item_def)
  have n: "\<forall>item \<in> set two_records. \<not> raises item"
    by (simp add: two_records_def raises_def accepted_def mcq_item_def)
  have g: "filter (\<lambda>item. \<not> accepted item) two_records
      = [mcq_item (JStr []) [JStr ''A'', JStr ''B''] 0]"
    by (simp add: two_records_def accepted_def mcq_item_def)
  from C1_extract_keeps_accepted [OF a n] two_record_extract f g
  have "promoted_from q1_card (mcq_item (JStr ''Q1'') [JStr ''A'', JStr ''B''] 0)"
    and "skipped_warnings ?r 0 0 two_records = [mcq_item (JStr []) [JStr ''A'', JStr ''B''] 0]"
    by simp_all
  with two_record_extract f show ?thesis
    by (simp add: q1_card_def)
qed

text \<open>
  The elements left out above are not skipped: an index of 0.5 passes the test of lines
  283-290, no option stands at that index, and reading its id raises. The error leaves
  the loop, so the card of the first element is lost with the batch.
\<close>

lemma fractional_index_loses_batch:
  "extractMCQsFromPDF (reply_run fractional_index_reply
       (JArr [mcq_item (JStr ''Q1'') [JStr ''A'', JStr ''B''] 0,
              mcq_item (JStr ''Q2'') [JStr ''A'', JStr ''B''] (1/2)]))
     = Inl TypeError"
  by code_simp

section \<open>Cancellation\<close>

lemma process_items_abort_reached:
  assumes "process_items r i k xs acc = Inr acc'" "aborted r (AtItem (i + length xs))"
  shows "process_items r i k (xs @ y # ys) acc = Inl AbortError"
  using assms
proof (induction xs arbitrary: i k acc)
  case Nil
  then show ?case by simp
next
  case (Cons x xs)
  from Cons.prems(1) have na: "\<not> aborted r (AtItem i)" and nn: "x \<noteq> JNull"
    by (auto split: if_splits)
  from Cons.prems(2) have ab: "aborted r (AtItem (Suc i + length xs))" by simp
  show ?case
  proof (cases "item_invalid x")
    case True
    with Cons.prems(1) na nn have "process_items r (Suc i) k xs acc = Inr acc'" by simp
    from Cons.IH[OF this ab] True na nn show ?thesis by simp
  next
    case False
    with Cons.prems(1) na nn obtain c where c: "promote (randomUUID r) k x = Inr c"
      and rec: "process_items r (Suc i) (k + ids_drawn x) xs (acc @ [c]) = Inr acc'"
      by (auto split: sum.splits)
    from Cons.IH[OF rec ab] False na nn c show ?thesis by simp
  qed
qed

lemma process_items_never_aborted:
  assumes "process_items r i k xs acc = Inr cards"
  shows "process_items (r\<lparr>aborted := (\<lambda>c. False)\<rparr>) i k xs acc = Inr cards"
  using assms
proof (induction xs arbitrary: i k acc)
  case Nil
  then show ?case by simp
next
  case (Cons x xs)
  from Cons.prems have na: "\<not> aborted r (AtItem i)" and nn: "x \<noteq> JNull"
    by (auto split: if_splits)
  show ?case
  proof (cases "item_invalid x")
    case True
    with Cons.prems na nn have "process_items r (Suc i) k xs acc = Inr cards" by simp
    from Cons.IH[OF this] True nn show ?thesis by simp
  next
    case False
    with Cons.prems na nn obtain c where c: "promote (randomUUID r) k x = Inr c"
      and rec: "process_items r (Suc i) (k + ids_drawn x) xs (acc @ [c]) = Inr cards"
      by (auto split: sum.splits)
    from Cons.IH[OF rec] False nn c show ?thesis by simp
  qed
qed

lemma readFileAsBase64_never_aborted:
  "readFileAsBase64 r = Inr b \<Longrightarrow> readFileAsBase64 (r\<lparr>aborted := (\<lambda>c. False)\<rparr>) = Inr b"
  by (auto simp: readFileAsBase64_def split: if_splits)

lemma extract_never_aborted:
  assumes "extractMCQsFromPDF r = Inr cards"
  shows "extractMCQsFromPDF (r\<lparr>aborted := (\<lambda>c. False)\<rparr>) = Inr cards"
proof -
  from assms obtain b reply items where
    h: "api_configured r" "readFileAsBase64 r = Inr b"
       "generateContent r (PdfRequest b) = Inr reply"
       "json_parse r (strip_fence reply) = Inr (JArr items)"
       "process_items r 0 0 items [] = Inr cards"
    by (auto simp: extractMCQsFromPDF_def split: if_splits sum.splits json.splits)
  from h(1,3,4) readFileAsBase64_never_aborted[OF h(2)] process_items_never_aborted[OF h(5)]
  show ?thesis by (simp add: extractMCQsFromPDF_def)
qed

text \<open>
  C2. In a configured run, a signal that shows aborted at a checkpoint the run reaches
  makes the extraction fail with the abort error: at the start or while the file is
  read; after the read, when the read succeeded; after the request, when the service
  answered; and at element \<open>i\<close> of the loop, when the reply parsed to an array and the
  loop got through the elements before \<open>i\<close>. A run that returns cards returns the cards
  of the same run with a signal that never fires, so never a truncated list. When the
  extraction failed with the abort error, or the signal shows aborted after it returned,
  the import handler leaves the store as it was: no card appended, nothing written.
\<close>

theorem C2_cancellation:
  assumes "api_configured r"
  shows "(aborted r AtStart \<or> aborted r AtReadEntry \<or> aborted r DuringRead
            \<longrightarrow> extractMCQsFromPDF r = Inl AbortError)
       \<and> (readFileAsBase64 r = Inr b \<and> aborted r AfterRead
            \<longrightarrow> extractMCQsFromPDF r = Inl AbortError)
       \<and> (readFileAsBase64 r = Inr b \<and> generateContent r (PdfRequest b) = Inr reply
            \<and> aborted r AfterCall
            \<longrightarrow> extractMCQsFromPDF r = Inl AbortError)
       \<and> (readFileAsBase64 r = Inr b \<and> generateContent r (PdfRequest b) = Inr reply
            \<and> json_parse r (strip_fence reply) = Inr (JArr items)
            \<and> i < length items \<and> process_items r 0 0 (take i items) [] = Inr acc
            \<and> aborted r (AtItem i)
            \<longrightarrow> extractMCQsFromPDF r = Inl AbortError)
       \<and> (\<forall>cards. extractMCQsFromPDF r = Inr cards
            \<longrightarrow> extractMCQsFromPDF (r\<lparr>aborted := (\<lambda>c. False)\<rparr>) = Inr cards)
       \<and> (extractMCQsFromPDF r = Inl AbortError \<or> aborted r AfterExtract
            \<longrightarrow> handlePdfFileSelected accepts stringify r fileName st = st)"
proof (intro conjI impI allI)
  assume "aborted r AtStart \<or> aborted r AtReadEntry \<or> aborted r DuringRead"
  with assms show "extractMCQsFromPDF r = Inl AbortError"
    by (auto simp: extractMCQsFromPDF_def readFileAsBase64_def)
next
  assume "readFileAsBase64 r = Inr b \<and> aborted r AfterRead"
  with assms show "extractMCQsFromPDF r = Inl AbortError"
    by (simp add: extractMCQsFromPDF_def)
next
  assume "readFileAsBase64 r = Inr b \<and> generateContent r (PdfRequest b) = Inr reply
            \<and> aborted r AfterCall"
  with assms show "extractMCQsFromPDF r = Inl AbortError"
    by (simp add: extractMCQsFromPDF_def)
next
  assume h: "readFileAsBase64 r = Inr b \<and> generateContent r (PdfRequest b) = Inr reply
            \<and> json_parse r (strip_fence reply) = Inr (JArr items)
            \<and> i < length items \<and> process_items r 0 0 (take i items) [] = Inr acc
            \<and> aborted r (AtItem i)"
  then have i: "i < length items" by simp
  then have split: "items = take i items @ (items ! i) # drop (Suc i) items"
    by (simp add: id_take_nth_drop)
  from i have len: "length (take i items) = i" by simp
  from h len have "aborted r (AtItem (0 + length (take i items)))" by simp
  with h have "process_items r 0 0 (take i items @ (items ! i) # drop (Suc i) items) []
      = Inl AbortError"
    by (intro process_items_abort_reached) simp_all
  with split have "process_items r 0 0 items [] = Inl AbortError" by simp
  with assms h show "extractMCQsFromPDF r = Inl AbortError"
    by (simp add: extractMCQsFromPDF_def)
next
  fix cards assume "extractMCQsFromPDF r = Inr cards"
  then show "extractMCQsFromPDF (r\<lparr>aborted := (\<lambda>c. False)\<rparr>) = Inr cards"
    by (rule extract_never_aborted)
next
  assume "extractMCQsFromPDF r = Inl AbortError \<or> aborted r AfterExtract"
  then show "handlePdfFileSelected accepts stringify r fileName st = st"
    by (auto simp: handlePdfFileSelected_def split: sum.splits)
qed

lemma cancelled_at_simps:
  "api_configured (cancelled_at cp)"
  "aborted (cancelled_at cp) c = (c = cp)"
  "generateContent (cancelled_at cp) q = Inr two_record_reply"
  "json_parse (cancelled_at cp) (strip_fence two_record_reply) = Inr (JArr two_records)"
  "randomUUID (cancelled_at cp) = sample_uuid"
  by (simp_all add: cancelled_at_def reply_run_def two_record_reply_plain)

lemma cancelled_at_read:
  "cp \<noteq> AtReadEntry \<Longrightarrow> cp \<noteq> DuringRead \<Longrightarrow>
   readFileAsBase64 (cancelled_at cp) = Inr ''JVBERi0x''"
  by (simp add: cancelled_at_def reply_run_def readFileAsBase64_def)

lemma cancelled_at_first_item:
  "process_items (cancelled_at (AtItem 1)) 0 0 (take 1 two_records) [] = Inr [q1_card]"
  by (simp add: cancelled_at_simps two_records_def mcq_item_def item_invalid_def promote_def
      make_options_def id_at_def ids_drawn_def sample_uuid_def q1_card_def)

lemma cancelled_after_extract:
  "extractMCQsFromPDF (cancelled_at AfterExtract) = Inr [q1_card]"
  by (simp add: extractMCQsFromPDF_def cancelled_at_simps cancelled_at_read two_records_def
      mcq_item_def item_invalid_def promote_def make_options_def id_at_def ids_drawn_def
      sample_uuid_def q1_card_def)

theorem C2_cancellation_witness:
  "extractMCQsFromPDF (cancelled_at AtStart) = Inl AbortError
   \<and> extractMCQsFromPDF (cancelled_at DuringRead) = Inl AbortError
   \<and> extractMCQsFromPDF (cancelled_at AfterRead) = Inl AbortError
   \<and> extractMCQsFromPDF (cancelled_at AfterCall) = Inl AbortError
   \<and> process_items (cancelled_at (AtItem 1)) 0 0 (take 1 two_records) [] = Inr [q1_card]
   \<and> extractMCQsFromPDF (cancelled_at (AtItem 1)) = Inl AbortError
   \<and> handlePdfFileSelected (\<lambda>v. True) (\<lambda>cs. ''[...]'') (cancelled_at (AtItem 1)) ''a.pdf'' sample_store
       = sample_store
   \<and> extractMCQsFromPDF (cancelled_at AfterExtract) = Inr [q1_card]
   \<and> extractMCQsFromPDF ((cancelled_at AfterExtract)\<lparr>aborted := (\<lambda>c. False)\<rparr>) = Inr [q1_card]
   \<and> handlePdfFileSelected (\<lambda>v. True) (\<lambda>cs. ''[...]'') (cancelled_at AfterExtract) ''a.pdf'' sample_store
       = sample_store"
proof -
  note C2 = C2_cancellation [OF cancelled_at_simps(1)]
  have 1: "extractMCQsFromPDF (cancelled_at AtStart) = Inl AbortError"
    using C2 [of AtStart] by (simp add: cancelled_at_simps)
  have 2: "extractMCQsFromPDF (cancelled_at DuringRead) = Inl AbortError"
    using C2 [of DuringRead] by (simp add: cancelled_at_simps)
  have 3: "extractMCQsFromPDF (cancelled_at AfterRead) = Inl AbortError"
    using C2 [of AfterRead "''JVBERi0x''"] by (simp add: cancelled_at_simps cancelled_at_read)
  have 4: "extractMCQsFromPDF (cancelled_at AfterCall) = Inl AbortError"
    using C2 [of AfterCall "''JVBERi0x''" two_record_reply]
    by (simp add: cancelled_at_simps cancelled_at_read)
  have 5: "extractMCQsFromPDF (cancelled_at (AtItem 1)) = Inl AbortError"
    using C2 [of "AtItem 1" "''JVBERi0x''" two_record_reply two_records 1 "[q1_card]"]
      cancelled_at_first_item
    by (simp add: cancelled_at_simps cancelled_at_read two_records_def)
  have 6: "handlePdfFileSelected (\<lambda>v. True) (\<lambda>cs. ''[...]'') (cancelled_at (AtItem 1)) ''a.pdf''
      sample_store = sample_store"
    using C2 [of "AtItem 1" _ _ _ _ _ "\<lambda>v. True" "\<lambda>cs. ''[...]''" "''a.pdf''" sample_store] 5
    by simp
  have 7: "extractMCQsFromPDF ((cancelled_at AfterExtract)\<lparr>aborted := (\<lambda>c. False)\<rparr>) = Inr [q1_card]"
    using C2 [of AfterExtract] cancelled_after_extract by simp
  have 8: "handlePdfFileSelected (\<lambda>v. True) (\<lambda>cs. ''[...]'') (cancelled_at AfterExtract) ''a.pdf''
      sample_store = sample_store"
    using C2 [of AfterExtract _ _ _ _ _ "\<lambda>v. True" "\<lambda>cs. ''[...]''" "''a.pdf''" sample_store]
    by (simp add: cancelled_at_simps)
  from 1 2 3 4 5 6 7 8 cancelled_at_first_item cancelled_after_extract show ?thesis by simp
qed

section \<open>Stripping the fence\<close>

lemma nl_space: "is_space (CHR 0x0A)" and nl_not_word: "\<not> is_word (CHR 0x0A)"
  by (simp_all add: is_space_def is_word_def)

lemma tick_not_space: "\<forall>c \<in> set ''```''. \<not> is_space c"
  by (simp add: is_space_def)

subsection \<open>Trimming\<close>

lemma rev_dropWhile_split:
  "xs = rev (dropWhile P (rev xs)) @ rev (takeWhile P (rev xs))"
proof -
  have "rev xs = takeWhile P (rev xs) @ dropWhile P (rev xs)" by simp
  then have "rev (rev xs) = rev (takeWhile P (rev xs) @ dropWhile P (rev xs))"
    by (rule arg_cong)
  then show ?thesis by (simp only: rev_rev_ident rev_append)
qed

lemma trim_tail:
  "dropWhile is_space t = trim t @ rev (takeWhile is_space (rev (dropWhile is_space t)))"
  unfolding trim_def by (rule rev_dropWhile_split)

lemma trim_split:
  obtains a b where "t = a @ trim t @ b" "\<forall>c \<in> set a. is_space c" "\<forall>c \<in> set b. is_space c"
proof -
  let ?a = "takeWhile is_space t"
  let ?b = "rev (takeWhile is_space (rev (dropWhile is_space t)))"
  have "t = ?a @ dropWhile is_space t" by simp
  with trim_tail[of t] have 1: "t = ?a @ trim t @ ?b" by metis
  have 3: "\<forall>c \<in> set ?a. is_space c"
    by (auto dest: set_takeWhileD)
  have 4: "\<forall>c \<in> set ?b. is_space c"
    by (auto dest: set_takeWhileD)
  from 1 3 4 show ?thesis by (rule that)
qed

lemma trim_last: "trim t \<noteq> [] \<Longrightarrow> \<not> is_space (last (trim t))"
  by (simp add: trim_def last_rev hd_dropWhile)

lemma trim_hd:
  assumes "trim t \<noteq> []"
  shows "\<not> is_space (hd (trim t))"
proof -
  let ?d = "dropWhile is_space t"
  from trim_tail[of t] assms have "?d \<noteq> []" by (metis append_is_Nil_conv)
  then have "\<not> is_space (hd ?d)" by (rule hd_dropWhile)
  moreover from trim_tail[of t] assms have "hd ?d = hd (trim t)" by (metis hd_append2)
  ultimately show ?thesis by simp
qed

lemma trim_id:
  assumes "s \<noteq> []" "\<not> is_space (hd s)" "\<not> is_space (last s)"
  shows "trim s = s"
proof -
  from assms(1,2) have 1: "dropWhile is_space s = s" by (cases s) simp_all
  from assms(1,3) have "dropWhile is_space (rev s) = rev s"
    by (cases "rev s") (simp_all add: last_rev[symmetric] hd_rev)
  with 1 show ?thesis by (simp add: trim_def)
qed

subsection \<open>The pieces of the pattern\<close>

lemma greedy_star_first: "\<exists>rest. greedy_star P s = dropWhile P s # rest"
proof -
  have "drop (length (takeWhile P s)) s = dropWhile P s"
    by (simp add: dropWhile_eq_drop)
  then show ?thesis by (simp add: greedy_star_def)
qed

lemma greedy_star_member:
  assumes "r \<in> set (greedy_star P s)"
  obtains w where "s = w @ r" "\<forall>c \<in> set w. P c"
proof -
  from assms have "r \<in> (\<lambda>k. drop k s) ` set [0 ..< Suc (length (takeWhile P s))]"
    unfolding greedy_star_def by (simp only: set_map set_rev)
  then obtain j where "j \<in> set [0 ..< Suc (length (takeWhile P s))]" "r = drop j s"
    by (rule imageE)
  then have "j \<le> length (takeWhile P s) \<and> r = drop j s" by auto
  then have "\<exists>k \<le> length (takeWhile P s). r = drop k s" by blast
  then obtain k where k: "k \<le> length (takeWhile P s)" "r = drop k s" by blast
  have "take k s = take k (takeWhile P s @ dropWhile P s)" by simp
  also from k(1) have "\<dots> = take k (takeWhile P s)" by (simp only: take_append) simp
  finally have "set (take k s) \<subseteq> set (takeWhile P s)" by (simp add: set_take_subset)
  then have "\<forall>c \<in> set (take k s). P c"
    by (auto dest: set_takeWhileD)
  moreover from k(2) have "s = take k s @ r" by simp
  ultimately show ?thesis using that by blast
qed

lemma fence_close_sound:
  assumes "fence_close s \<noteq> []"
  obtains w where "s = w @ ''```''" "\<forall>c \<in> set w. is_space c"
proof -
  from assms obtain r5 r6 r7 where
    m: "r5 \<in> set (optional_char (CHR 0x0A) s)" "r6 \<in> set (greedy_star is_space r5)"
       "r7 \<in> set (literal ''```'' r6)" "r7 = []"
    by (fastforce simp: fence_close_def split: if_splits)
  from m(3,4) have t: "take 3 r6 = ''```''" and d: "drop 3 r6 = []"
    by (auto simp: literal_def split: if_splits)
  have "r6 = take 3 r6 @ drop 3 r6" by simp
  with t d have r6: "r6 = ''```''" by simp
  from m(2) obtain w where w: "r5 = w @ r6" "\<forall>c \<in> set w. is_space c"
    by (rule greedy_star_member)
  from m(1) have "s = r5 \<or> s = CHR 0x0A # r5"
    by (auto simp: optional_char_def split: list.splits if_splits)
  then show ?thesis
  proof
    assume "s = r5"
    with w r6 show ?thesis using that by simp
  next
    assume "s = CHR 0x0A # r5"
    with w r6 have "s = (CHR 0x0A # w) @ ''```''" "\<forall>c \<in> set (CHR 0x0A # w). is_space c"
      by (simp_all add: nl_space)
    then show ?thesis by (rule that)
  qed
qed

lemma fence_close_complete:
  assumes "\<forall>c \<in> set w. is_space c"
  shows "fence_close (w @ ''```'') \<noteq> []"
proof -
  let ?s = "w @ ''```''"
  have 5: "?s \<in> set (optional_char (CHR 0x0A) ?s)"
    by (simp add: optional_char_def split: list.splits)
  from assms have "dropWhile is_space ?s = ''```''"
    by (simp add: dropWhile_append3 is_space_def)
  with greedy_star_first[of is_space ?s] have 6: "''```'' \<in> set (greedy_star is_space ?s)"
    by auto
  have 7: "[] \<in> set (literal ''```'' ''```'')" by (simp add: literal_def)
  from 5 6 7 have "() \<in> set (fence_close ?s)"
    unfolding fence_close_def by (fastforce simp: literal_def)
  then show ?thesis by auto
qed

lemma second_group_first:
  assumes "u \<noteq> []" "\<not> is_space (last u)" "\<forall>c \<in> set w. is_space c"
  shows "\<exists>rest. second_group (u @ w @ ''```'') = u # rest"
proof -
  define s where "s = u @ w @ ''```''"
  define n where "n = length u"
  define h :: "nat \<Rightarrow> string list"
    where "h = (\<lambda>k. map (\<lambda>x. take k s) (fence_close (drop k s)))"
  have early: "h k = []" if "k < n" for k
  proof -
    have "fence_close (drop k s) = []"
    proof (rule ccontr)
      assume "fence_close (drop k s) \<noteq> []"
      then obtain w' where w': "drop k s = w' @ ''```''" "\<forall>c \<in> set w'. is_space c"
        by (rule fence_close_sound)
      from that have "drop k s = (drop k u @ w) @ ''```''" by (simp add: s_def n_def)
      with w'(1) have "drop k u @ w = w'" by (simp only: append_same_eq)
      moreover from that have "drop k u \<noteq> []" by (simp add: n_def)
      then have "last (drop k u) \<in> set (drop k u)" by (rule last_in_set)
      with that have "last u \<in> set (drop k u)" by (simp add: n_def)
      ultimately have "last u \<in> set w'" by auto
      with w'(2) assms(2) show False by blast
    qed
    then show ?thesis by (simp add: h_def)
  qed
  have "drop n s = w @ ''```''" by (simp add: s_def n_def)
  with fence_close_complete[OF assms(3)] have "fence_close (drop n s) \<noteq> []" by simp
  then obtain x xs where "fence_close (drop n s) = x # xs"
    by (cases "fence_close (drop n s)") auto
  moreover have "take n s = u" by (simp add: s_def n_def)
  ultimately have here: "h n = u # map (\<lambda>x. u) xs" by (simp add: h_def)
  have le: "n \<le> length s" by (simp add: s_def n_def)
  then have m: "n + (Suc (length s) - n) = Suc (length s)" by simp
  have "[0 ..< n + (Suc (length s) - n)] = [0 ..< n] @ [n ..< n + (Suc (length s) - n)]"
    by (rule upt_add_eq_append) simp
  then have "[0 ..< Suc (length s)] = [0 ..< n] @ [n ..< Suc (length s)]"
    by (simp only: m)
  also from le have "[n ..< Suc (length s)] = n # [Suc n ..< Suc (length s)]"
    by (intro upt_conv_Cons) simp
  finally have sp: "[0 ..< Suc (length s)] = [0 ..< n] @ n # [Suc n ..< Suc (length s)]" .
  have "second_group s = concat (map h [0 ..< Suc (length s)])"
    by (simp only: second_group_def lazy_any_def h_def map_map comp_def prod.case)
  also have "\<dots> = concat (map h [0 ..< n]) @ h n @ concat (map h [Suc n ..< Suc (length s)])"
    by (simp only: sp map_append list.map concat_append concat.simps)
  also have "concat (map h [0 ..< n]) = []"
    using early by simp
  finally show ?thesis using here by (simp add: s_def)
qed

lemma fence_body_first:
  assumes "\<forall>c \<in> set a. is_space c" "u \<noteq> []" "\<not> is_space (hd u)"
    "\<not> is_space (last u)" "\<forall>c \<in> set w. is_space c"
  shows "\<exists>rest. fence_body (a @ u @ w @ ''```'') = u # rest"
proof -
  let ?r = "u @ w @ ''```''"
  from assms(2) obtain x u' where u: "u = x # u'" by (cases u) auto
  with assms(3) have x: "\<not> is_space x" by simp
  from assms(1) have "dropWhile is_space (a @ ?r) = dropWhile is_space ?r"
    by (simp add: dropWhile_append2)
  also from u x have "\<dots> = ?r" by simp
  finally have d: "dropWhile is_space (a @ ?r) = ?r" .
  from greedy_star_first[of is_space "a @ ?r"] d obtain rest1 where
    g: "greedy_star is_space (a @ ?r) = ?r # rest1" by auto
  from x nl_space have "x \<noteq> CHR 0x0A" by auto
  with u have o: "optional_char (CHR 0x0A) ?r = [?r]"
    by (simp add: optional_char_def)
  from second_group_first[OF assms(2,4,5)] obtain rest2 where
    s: "second_group ?r = u # rest2" by blast
  from g o s show ?thesis by (simp add: fence_body_def)
qed

lemma fenceRegex_first:
  assumes "\<forall>c \<in> set lang. is_word c" "\<forall>c \<in> set a. is_space c" "u \<noteq> []"
    "\<not> is_space (hd u)" "\<not> is_space (last u)" "\<forall>c \<in> set w. is_space c"
  shows "\<exists>rest. fenceRegex (''```'' @ lang @ CHR 0x0A # a @ u @ w @ ''```'') = u # rest"
proof -
  let ?r1 = "CHR 0x0A # a @ u @ w @ ''```''"
  have l: "literal ''```'' (''```'' @ lang @ ?r1) = [lang @ ?r1]"
    by (simp add: literal_def)
  from assms(1) have "dropWhile is_word (lang @ ?r1) = dropWhile is_word ?r1"
    by (simp add: dropWhile_append2)
  also have "\<dots> = ?r1" by (simp add: nl_not_word)
  finally have "dropWhile is_word (lang @ ?r1) = ?r1" .
  with greedy_star_first[of is_word "lang @ ?r1"] obtain rest1 where
    g: "greedy_star is_word (lang @ ?r1) = ?r1 # rest1" by auto
  from assms(2) have "\<forall>c \<in> set (CHR 0x0A # a). is_space c" by (simp add: nl_space)
  from fence_body_first[OF this assms(3-6)] obtain rest2 where
    b: "fence_body ?r1 = u # rest2" by auto
  from l g b show ?thesis by (simp add: fenceRegex_def)
qed

lemma strip_fence_fenced:
  assumes "\<forall>c \<in> set lang. is_word c" "trim t \<noteq> []"
  shows "strip_fence (fenced lang t) = trim t"
proof -
  obtain a b where t: "t = a @ trim t @ b" "\<forall>c \<in> set a. is_space c" "\<forall>c \<in> set b. is_space c"
    by (rule trim_split)
  let ?u = "trim t"
  from t(1) have f: "fenced lang t = ''```'' @ lang @ CHR 0x0A # a @ ?u @ (b @ [CHR 0x0A]) @ ''```''"
    unfolding fenced_def by (metis append_Cons append_Nil append_assoc)
  have "trim (fenced lang t) = fenced lang t"
    by (rule trim_id) (simp_all add: fenced_def is_space_def)
  moreover from t(3) have "\<forall>c \<in> set (b @ [CHR 0x0A]). is_space c" by (simp add: nl_space)
  from fenceRegex_first[OF assms(1) t(2) assms(2) trim_hd[OF assms(2)] trim_last[OF assms(2)] this]
  obtain rest where "fenceRegex (fenced lang t) = ?u # rest" unfolding f by blast
  moreover have "trim ?u = ?u"
    using assms(2) trim_hd[OF assms(2)] trim_last[OF assms(2)] by (rule trim_id)
  ultimately show ?thesis using assms(2) by (simp add: strip_fence_def)
qed

lemma strip_fence_plain: "fenceRegex (trim t) = [] \<Longrightarrow> strip_fence t = trim t"
  by (simp add: strip_fence_def)

lemma process_items_generateContent [simp]:
  "process_items (r\<lparr>generateContent := f\<rparr>) i k xs acc = process_items r i k xs acc"
  by (induction xs arbitrary: i k acc) (simp_all split: sum.splits)

lemma readFileAsBase64_generateContent [simp]:
  "readFileAsBase64 (r\<lparr>generateContent := f\<rparr>) = readFileAsBase64 r"
  by (simp add: readFileAsBase64_def)

text \<open>
  C7 (amended). For a reply text that is not blank and that the fence pattern does not
  match (it is not itself a fenced block), wrapping it in a fence, with an info string of
  word characters and a line break on each side, changes nothing: the text handed to the
  parser is the same, and so are the results of the extraction and of the generation of
  one question.
\<close>

theorem C7_fence_stripped:
  assumes "\<forall>c \<in> set lang. is_word c" and "trim t \<noteq> []" and "fenceRegex (trim t) = []"
  shows "strip_fence (fenced lang t) = strip_fence t
       \<and> extractMCQsFromPDF (r\<lparr>generateContent := (\<lambda>q. Inr (fenced lang t))\<rparr>)
           = extractMCQsFromPDF (r\<lparr>generateContent := (\<lambda>q. Inr t)\<rparr>)
       \<and> generateMCQWithGemini (r\<lparr>generateContent := (\<lambda>q. Inr (fenced lang t))\<rparr>) tp n
           = generateMCQWithGemini (r\<lparr>generateContent := (\<lambda>q. Inr t)\<rparr>) tp n"
proof -
  from strip_fence_fenced[OF assms(1,2)] strip_fence_plain[OF assms(3)]
  have s: "strip_fence (fenced lang t) = strip_fence t" by simp
  have e: "extractMCQsFromPDF (r\<lparr>generateContent := (\<lambda>q. Inr (fenced lang t))\<rparr>)
           = extractMCQsFromPDF (r\<lparr>generateContent := (\<lambda>q. Inr t)\<rparr>)"
    by (cases "readFileAsBase64 r"; cases "json_parse r (strip_fence t)")
       (simp_all add: extractMCQsFromPDF_def s split: json.splits)
  have g: "generateMCQWithGemini (r\<lparr>generateContent := (\<lambda>q. Inr (fenced lang t))\<rparr>) tp n
           = generateMCQWithGemini (r\<lparr>generateContent := (\<lambda>q. Inr t)\<rparr>) tp n"
    by (cases "json_parse r (strip_fence t)")
       (simp_all add: generateMCQWithGemini_def s)
  from s e g show ?thesis by simp
qed

lemma fenced_once: "strip_fence (fenced [] ''[]'') = ''[]''"
  by code_simp

lemma fenced_twice: "strip_fence (fenced [] (fenced [] ''[]'')) = fenced [] ''[]''"
  by code_simp

text \<open>
  C7 (as stated, refuted). The pattern strips one fence. For the reply that is itself the
  fenced empty array, the extraction returns no cards; wrapped in a second fence, the
  text left for the parser still starts with the inner fence, and the extraction fails.
\<close>

theorem C7_fenced_twice:
  "extractMCQsFromPDF (parsing_run (fenced [] ''[]'')) = Inr []
   \<and> extractMCQsFromPDF (parsing_run (fenced [] (fenced [] ''[]'')))
       = Inl (ParseFailure ''SyntaxError'')"
  by (simp add: extractMCQsFromPDF_def parsing_run_def reply_run_def readFileAsBase64_def
      fenced_once fenced_twice)
     (simp add: sample_parse_def fenced_def)

theorem C7_fence_stripped_witness:
  "strip_fence (fenced ''json'' two_record_reply) = two_record_reply
   \<and> extractMCQsFromPDF ((reply_run two_record_reply (JArr two_records))
         \<lparr>generateContent := (\<lambda>q. Inr (fenced ''json'' two_record_reply))\<rparr>) = Inr [q1_card]"
proof -
  have w: "\<forall>c \<in> set ''json''. is_word c" by (simp add: is_word_def)
  have t: "trim two_record_reply = two_record_reply"
    unfolding two_record_reply_def by code_simp
  have n: "trim two_record_reply \<noteq> []"
    unfolding t by (simp add: two_record_reply_def)
  have f: "fenceRegex (trim two_record_reply) = []"
    unfolding t by (simp add: fenceRegex_def literal_def two_record_reply_def)
  have r: "(reply_run two_record_reply (JArr two_records))
      \<lparr>generateContent := (\<lambda>q. Inr two_record_reply)\<rparr> = reply_run two_record_reply (JArr two_records)"
    by (simp add: reply_run_def)
  from C7_fence_stripped [OF w n f, of "reply_run two_record_reply (JArr two_records)"]
    two_record_extract two_record_reply_plain
  show ?thesis unfolding r by simp
qed

end
